theory Spec2Isabelle
  imports Main
begin

section \<open>Token kinds and the lookahead view\<close>

text \<open>
  The terminals of \<^verbatim>\<open>V3ParseImp.cpp\<close> are C \<^verbatim>\<open>int\<close>s: \<^verbatim>\<open>0\<close> is end of input, a character
  literal such as \<^verbatim>\<open>'('\<close> is its own code, and the names \<^verbatim>\<open>yaID__LEX\<close>, \<^verbatim>\<open>yTYPE__LEX\<close>, ...
  are members of the enumeration that bison generates into \<^verbatim>\<open>V3ParseBison.h\<close>.  The
  enumeration is a datatype here: \<open>TEOF\<close> is the value \<^verbatim>\<open>0\<close>, \<open>CH c\<close> is a character token
  (the lexer gives none with code \<^verbatim>\<open>0\<close>), every terminal that the file names has its own
  constructor and \<open>yOTHER n\<close> stands for the remaining terminals of the grammar.
\<close>

datatype tokkind =
    TEOF
  | CH char
  | yaID__LEX | yaID__CC | yaID__aCELL | yaID__aTYPE | yaID__ETC
  | yaINTNUM | yaFLOATNUM | yaTIMENUM
  | yP_COLONCOLON | yP_EQUAL | yP_NOTEQUAL | yP_CASEEQUAL | yP_CASENOTEQUAL
  | yP_PAR__STRENGTH | yP_COLON__BEGIN | yP_COLON__FORK
  | yBEGIN | yFORK | yREF | yCLOCKING | yCONSTRAINT | yCLASS | yINTERFACE
  | yCONST__LEX | yCONST__REF | yCONST__ETC
  | yGLOBAL__LEX | yGLOBAL__CLOCKING | yGLOBAL__ETC
  | yLOCAL__LEX | yLOCAL__COLONCOLON | yLOCAL__ETC
  | yNEW__LEX | yNEW__PAREN | yNEW__ETC
  | ySTATIC__LEX | ySTATIC__CONSTRAINT | ySTATIC__ETC
  | yTYPE__LEX | yTYPE__EQ | yTYPE__ETC
  | yVIRTUAL__LEX | yVIRTUAL__CLASS | yVIRTUAL__INTERFACE | yVIRTUAL__anyID | yVIRTUAL__ETC
  | yWITH__LEX | yWITH__PAREN | yWITH__BRA | yWITH__CUR | yWITH__ETC
  | ygenSTRENGTH | ySUPPLY0 | ySUPPLY1 | ySTRONG0 | ySTRONG1 | yPULL0 | yPULL1
  | yWEAK0 | yWEAK1 | yHIGHZ0 | yHIGHZ1
  | yOTHER nat

abbreviation LPAREN :: tokkind where "LPAREN \<equiv> CH CHR ''(''"
abbreviation RPAREN :: tokkind where "RPAREN \<equiv> CH CHR '')''"
abbreviation LBRACK :: tokkind where "LBRACK \<equiv> CH CHR ''[''"
abbreviation RBRACK :: tokkind where "RBRACK \<equiv> CH CHR '']''"
abbreviation LBRACE :: tokkind where "LBRACE \<equiv> CH CHR ''{''"
abbreviation HASH :: tokkind where "HASH \<equiv> CH CHR ''#''"
abbreviation ATSIGN :: tokkind where "ATSIGN \<equiv> CH CHR ''@''"
abbreviation DOT :: tokkind where "DOT \<equiv> CH CHR ''.''"
abbreviation COLON :: tokkind where "COLON \<equiv> CH CHR '':''"
abbreviation SEMI :: tokkind where "SEMI \<equiv> CH CHR '';''"

text \<open>
  \<^verbatim>\<open>tokenPeekp(depth)\<close> pulls from the lexer until the queue \<^verbatim>\<open>m_tokensAhead\<close> holds more
  than \<^verbatim>\<open>depth\<close> tokens and returns the token at that index.  The scanners read only the
  \<^verbatim>\<open>token\<close> field of what they peek, so they are functions of the list of kinds of the
  tokens not yet consumed: those queued, followed by those the lexer has still to
  deliver.  The lexer answers every request past the end of its input with the
  end-of-input kind \<^verbatim>\<open>0\<close>.  Depths are \<^verbatim>\<open>size_t\<close> in the interface and \<^verbatim>\<open>int\<close> inside two of
  the scanners; they are natural numbers here (an \<^verbatim>\<open>int\<close> index wraps only beyond \<open>2^31\<close>
  buffered tokens).
\<close>

definition peekTok :: "tokkind list \<Rightarrow> nat \<Rightarrow> tokkind" where
  "peekTok ts depth = (if depth < length ts then ts ! depth else TEOF)"

text \<open>
  The lookahead queue.  \<^verbatim>\<open>yylexReadTok\<close> hands over the next kind of the lexer's input, and
  the end-of-input kind once the input is used up; \<^verbatim>\<open>tokenPull\<close> appends it to
  \<^verbatim>\<open>m_tokensAhead\<close>; \<^verbatim>\<open>tokenPeekp\<close> pulls while the queue is too short.  The state is the queue
  (first component) and the lexer's remaining input (second component).
\<close>

definition yylexReadTok :: "tokkind list \<Rightarrow> tokkind \<times> tokkind list" where
  "yylexReadTok lexInput = (case lexInput of [] \<Rightarrow> (TEOF, []) | t # rest \<Rightarrow> (t, rest))"

definition tokenPull :: "tokkind list \<times> tokkind list \<Rightarrow> tokkind list \<times> tokkind list" where
  "tokenPull q = (let (tok, lexInput') = yylexReadTok (snd q) in (fst q @ [tok], lexInput'))"

function tokenPeekp ::
  "nat \<Rightarrow> tokkind list \<times> tokkind list \<Rightarrow> tokkind \<times> (tokkind list \<times> tokkind list)" where
  "tokenPeekp depth q =
     (if length (fst q) \<le> depth then tokenPeekp depth (tokenPull q) else (fst q ! depth, q))"
  by pat_completeness auto
termination
  by (relation "measure (\<lambda>(depth, q). Suc depth - length (fst q))")
     (auto simp: tokenPull_def yylexReadTok_def split: list.splits prod.splits)

declare tokenPeekp.simps [simp del]

section \<open>Structural scanners\<close>

text \<open>
  \<^verbatim>\<open>tokenPipeScanBracket\<close>, the inner \<^verbatim>\<open>do ... while (bra)\<close> loop.  \<open>None\<close> is the
  \<^verbatim>\<open>return inDepth\<close> taken at end of input; \<open>Some (depth, bra)\<close> holds the two locals when
  the loop is left.
\<close>

function scanBracketDo :: "tokkind list \<Rightarrow> nat \<Rightarrow> int \<Rightarrow> (nat \<times> int) option" where
  "scanBracketDo ts depth bra =
     (let tok = peekTok ts depth in
      if tok = TEOF then None
      else
        let (bra', depth') =
              (if tok = LBRACK then (bra + 1, depth + 1)
               else if bra \<noteq> 0 \<and> tok = RBRACK then (bra - 1, depth + 1)
               else if bra \<noteq> 0 then (bra, depth + 1)
               else (bra, depth))
        in if bra' \<noteq> 0 then scanBracketDo ts depth' bra' else Some (depth', bra'))"
  by pat_completeness auto
termination
  by (relation "measure (\<lambda>(ts, depth, bra). length ts - depth)")
     (auto simp: peekTok_def split: if_splits)

declare scanBracketDo.simps [simp del]

text \<open>
  The outer \<^verbatim>\<open>while\<close> loop ends because the inner loop, entered at a \<^verbatim>\<open>[\<close>, moves on by
  at least that token.
\<close>

lemma scanBracketDo_advances:
  "scanBracketDo ts depth bra = Some (depth', bra') \<Longrightarrow> peekTok ts depth = LBRACK
   \<Longrightarrow> depth < depth' \<and> depth < length ts"
proof -
  have mono: "scanBracketDo ts d b = Some (d', b') \<Longrightarrow> d \<le> d'" for d b d' b'
  proof (induction ts d b rule: scanBracketDo.induct)
    case (1 ts depth bra)
    from "1.prems" show ?case
      apply (subst (asm) scanBracketDo.simps)
      apply (auto simp: Let_def split: if_splits dest!: "1.IH"[rotated -1])
      done
  qed
  assume a: "scanBracketDo ts depth bra = Some (depth', bra')" and b: "peekTok ts depth = LBRACK"
  from b have lt: "depth < length ts" by (auto simp: peekTok_def split: if_splits)
  from a b have "depth + 1 \<le> depth'"
    apply (subst (asm) scanBracketDo.simps)
    apply (auto simp: Let_def split: if_splits dest!: mono)
    done
  with lt show ?thesis by simp
qed

text \<open>The outer loop \<^verbatim>\<open>while (tokenPeekp(depth)->token == '[')\<close> and the final \<^verbatim>\<open>return depth\<close>.\<close>

function scanBracketWhile :: "tokkind list \<Rightarrow> nat \<Rightarrow> nat \<Rightarrow> int \<Rightarrow> nat" where
  "scanBracketWhile ts inDepth depth bra =
     (if peekTok ts depth = LBRACK then
        (case scanBracketDo ts depth bra of
           None \<Rightarrow> inDepth
         | Some (depth', bra') \<Rightarrow> scanBracketWhile ts inDepth depth' bra')
      else depth)"
  by pat_completeness auto
termination
  by (relation "measure (\<lambda>(ts, inDepth, depth, bra). length ts - depth)")
     (auto dest: scanBracketDo_advances)

declare scanBracketWhile.simps [simp del]

definition tokenPipeScanBracket :: "tokkind list \<Rightarrow> nat \<Rightarrow> nat" where
  "tokenPipeScanBracket ts inDepth = scanBracketWhile ts inDepth inDepth 0"

text \<open>
  \<^verbatim>\<open>tokenPipeScanParam\<close>: the \<^verbatim>\<open>while (true)\<close> loop that counts parentheses, then the
  function.  At end of input the loop returns \<^verbatim>\<open>inDepth\<close>.
\<close>

function scanParamLoop :: "tokkind list \<Rightarrow> nat \<Rightarrow> nat \<Rightarrow> int \<Rightarrow> nat" where
  "scanParamLoop ts inDepth depth parens =
     (let tok = peekTok ts depth in
      if tok = TEOF then inDepth
      else if tok = LPAREN then scanParamLoop ts inDepth (depth + 1) (parens + 1)
      else if tok = RPAREN then
        (if parens - 1 = 0 then depth + 1
         else scanParamLoop ts inDepth (depth + 1) (parens - 1))
      else scanParamLoop ts inDepth (depth + 1) parens)"
  by pat_completeness auto
termination
  by (relation "measure (\<lambda>(ts, inDepth, depth, parens). length ts - depth)")
     (auto simp: peekTok_def split: if_splits)

declare scanParamLoop.simps [simp del]

definition tokenPipeScanParam :: "tokkind list \<Rightarrow> nat \<Rightarrow> bool \<Rightarrow> nat" where
  "tokenPipeScanParam ts inDepth forCell =
     (if peekTok ts inDepth \<noteq> HASH then inDepth
      else
        let depth = inDepth + 1 in
        if peekTok ts depth \<noteq> LPAREN then
          (if \<not> forCell then inDepth
           else
             let ntoken = peekTok ts depth in
             if ntoken = yaINTNUM \<or> ntoken = yaFLOATNUM \<or> ntoken = yaTIMENUM
                \<or> ntoken = yaID__LEX
             then depth + 1
             else inDepth)
        else scanParamLoop ts inDepth (depth + 1) 1)"

text \<open>
  \<^verbatim>\<open>tokenPipeScanTypeEq\<close>: the same loop, but here the parameter \<^verbatim>\<open>depth\<close> itself is
  advanced, and at end of input the loop is left with \<^verbatim>\<open>break\<close>, so that the function
  returns the depth it has reached.
\<close>

function scanTypeEqLoop :: "tokkind list \<Rightarrow> nat \<Rightarrow> int \<Rightarrow> nat" where
  "scanTypeEqLoop ts depth parens =
     (let tok = peekTok ts depth in
      if tok = TEOF then depth
      else if tok = LPAREN then scanTypeEqLoop ts (depth + 1) (parens + 1)
      else if tok = RPAREN then
        (if parens - 1 = 0 then depth + 1
         else scanTypeEqLoop ts (depth + 1) (parens - 1))
      else scanTypeEqLoop ts (depth + 1) parens)"
  by pat_completeness auto
termination
  by (relation "measure (\<lambda>(ts, depth, parens). length ts - depth)")
     (auto simp: peekTok_def split: if_splits)

declare scanTypeEqLoop.simps [simp del]

definition tokenPipeScanTypeEq :: "tokkind list \<Rightarrow> nat \<Rightarrow> nat" where
  "tokenPipeScanTypeEq ts depth =
     (if peekTok ts depth \<noteq> LPAREN then depth
      else scanTypeEqLoop ts (depth + 1) 1)"

definition tokenPipeScanIdCell :: "tokkind list \<Rightarrow> nat \<Rightarrow> nat" where
  "tokenPipeScanIdCell ts depthIn =
     (let depth = tokenPipeScanParam ts depthIn True in
      if peekTok ts depth \<noteq> yaID__LEX then depthIn
      else
        let depth = tokenPipeScanBracket ts (depth + 1) in
        if peekTok ts depth \<noteq> LPAREN then depthIn
        else depth)"

section \<open>Tokens, symbol table and parser state\<close>

text \<open>
  \<^verbatim>\<open>V3ParseBisonYYSType\<close>, as far as this file uses it: the terminal, the source location
  (a reference to a \<^verbatim>\<open>FileLine\<close>), the identifier's text \<^verbatim>\<open>*strp\<close> and the node \<^verbatim>\<open>scp\<close> that
  the symbol table found.  Of a node only the AST type tested by \<^verbatim>\<open>VN_IS\<close> is kept.
\<close>

datatype astnode = AstTypedef | AstTypedefFwd | AstClass | AstPackage | AstOther

type_synonym symscope = nat
type_synonym flref = nat

record yystype =
  token :: tokkind
  fl :: flref
  strp :: string
  scp :: "astnode option"

text \<open>
  The symbol table \<^verbatim>\<open>V3ParseSym\<close> belongs to the grammar.  Its two queries are parameters:
  \<open>findIdFlat sc name\<close> and \<open>findIdFallback sc name\<close> give the node of the entry found
  from scope \<open>sc\<close>, if any.  \<open>nextId\<close> is the one-shot scope under which the next
  identifier is to be looked up, \<open>symCurrentp\<close> the current scope.
\<close>

record symtab =
  nextId :: "symscope option"
  symCurrentp :: symscope
  findIdFlat :: "symscope \<Rightarrow> string \<Rightarrow> astnode option"
  findIdFallback :: "symscope \<Rightarrow> string \<Rightarrow> astnode option"

text \<open>The two command-line options read: \<^verbatim>\<open>v3Global.opt.pedantic()\<close> and \<^verbatim>\<open>bboxUnsup()\<close>.\<close>

record options =
  pedantic :: bool
  bboxUnsup :: bool

text \<open>
  \<^verbatim>\<open>v3Global.rootp()->stdPackagep()\<close>, when not null: the package's file line and its
  symbol table entry \<^verbatim>\<open>user4u().toSymEnt()\<close>.  \<open>AstPackageImport\<close> is the import node
  that is added to the \<^verbatim>\<open>$unit\<close> package, \<open>V3Warn\<close> a call of \<^verbatim>\<open>v3warn\<close> with its location,
  code and message.
\<close>

record stdpkg =
  pkg_fileline :: flref
  pkg_symEnt :: symscope

datatype aststmt = AstPackageImport flref symscope string

datatype diag = V3Warn flref string string

text \<open>
  The state that \<^verbatim>\<open>tokenToBison\<close> reads and writes.  \<open>m_tokensAhead\<close> holds the tokens not
  yet consumed (the queue followed by the lexer's remaining input, see
  \<open>tokenPeekp_view\<close>); \<open>unitStmts\<close> the statements this file adds to the \<^verbatim>\<open>$unit\<close>
  package; \<open>warned\<close> the function-local \<^verbatim>\<open>static int warned\<close> (an unbounded integer:
  overflow of the C \<^verbatim>\<open>int\<close> is undefined and needs \<open>2^31\<close> unresolved identifiers);
  \<open>warnings\<close> the calls of \<^verbatim>\<open>v3warn\<close>.  \<open>symQueries\<close> is a trace that the code does not have:
  the calls made to the symbol table, in order and tagged by the place of the call, so
  that a statement can say which lookups a call attempts.  Nothing reads it.
\<close>

datatype lookup_site = ForcedUnder | FindUpward | StdPackage

record parse_state =
  m_tokensAhead :: "yystype list"
  yylval :: yystype
  m_tokenLastBison :: yystype
  m_bisonLastFileline :: flref
  m_afterColonColon :: bool
  symp :: symtab
  stdPackagep :: "stdpkg option"
  usesStdPackage :: bool
  unitStmts :: "aststmt list"
  warned :: int
  warnings :: "diag list"
  symQueries :: "(lookup_site \<times> symscope \<times> string) list"

section \<open>The token pipeline\<close>

definition isStrengthToken :: "tokkind \<Rightarrow> bool" where
  "isStrengthToken tok \<longleftrightarrow>
     tok = ygenSTRENGTH \<or> tok = ySUPPLY0 \<or> tok = ySUPPLY1 \<or> tok = ySTRONG0
     \<or> tok = ySTRONG1 \<or> tok = yPULL0 \<or> tok = yPULL1 \<or> tok = yWEAK0 \<or> tok = yWEAK1
     \<or> tok = yHIGHZ0 \<or> tok = yHIGHZ1"

text \<open>
  \<^verbatim>\<open>tokenPipelineId\<close>.  \<open>ahead\<close> are the kinds of the tokens after the identifier,
  \<open>lastBison\<close> is \<^verbatim>\<open>m_tokenLastBison.token\<close>.  The assertion \<^verbatim>\<open>yylval.token == yaID__LEX\<close>
  holds at the only call; \<^verbatim>\<open>VL_RESTORER\<close> puts \<^verbatim>\<open>yylval\<close> back after the peeks.
\<close>

definition tokenPipelineId :: "tokkind list \<Rightarrow> tokkind \<Rightarrow> tokkind \<Rightarrow> tokkind" where
  "tokenPipelineId ahead lastBison tok =
     (let nexttok = peekTok ahead 0 in
      if nexttok = yP_COLONCOLON then yaID__CC
      else if lastBison \<noteq> ATSIGN \<and> lastBison \<noteq> HASH \<and> lastBison \<noteq> DOT
              \<and> tokenPipeScanIdCell ahead 0 \<noteq> 0 then yaID__aCELL
      else if nexttok = HASH
              \<and> peekTok ahead (tokenPipeScanParam ahead 0 False) = yP_COLONCOLON then yaID__CC
      else tok)"

text \<open>The kinds for which \<^verbatim>\<open>tokenPipeline\<close> reads ahead (its first \<^verbatim>\<open>if\<close>).\<close>

definition lookaheadToken :: "tokkind \<Rightarrow> bool" where
  "lookaheadToken tok \<longleftrightarrow>
     tok = LPAREN \<or> tok = COLON \<or> tok = yCONST__LEX \<or> tok = yGLOBAL__LEX
     \<or> tok = yLOCAL__LEX \<or> tok = yNEW__LEX \<or> tok = ySTATIC__LEX \<or> tok = yTYPE__LEX
     \<or> tok = yVIRTUAL__LEX \<or> tok = yWITH__LEX \<or> tok = yaID__LEX"

text \<open>
  What the queue holds for the end of input: the terminal \<^verbatim>\<open>0\<close>.  \<^verbatim>\<open>tokenPull\<close> queues
  \<^verbatim>\<open>yylval\<close> as the lexer leaves it, before the symbol table is asked, so \<^verbatim>\<open>scp\<close> is null in
  every queued token; the location and the string are those of the token the lexer gave
  last, which are read here from \<open>stale\<close>, the last \<^verbatim>\<open>yylval\<close>.
\<close>

definition eofToken :: "yystype \<Rightarrow> yystype" where
  "eofToken stale = stale\<lparr>token := TEOF, scp := None\<rparr>"

text \<open>
  \<^verbatim>\<open>tokenPipeline\<close>: take the front token, then the chain of \<^verbatim>\<open>else if\<close> on its kind.  The
  result is the state with the token consumed and \<^verbatim>\<open>yylval\<close> holding it with its new kind
  (and, for a demoted \<^verbatim>\<open>global\<close>, the new string).
\<close>

definition tokenPipeline :: "options \<Rightarrow> parse_state \<Rightarrow> parse_state" where
  "tokenPipeline opt s =
     (let (front, rest) = (case m_tokensAhead s of
                              [] \<Rightarrow> (eofToken (yylval s), [])
                            | t # ts \<Rightarrow> (t, ts));
          ahead = map token rest;
          tok = token front;
          nexttok = peekTok ahead 0;
          val =
            (if \<not> lookaheadToken tok then front
             else if tok = LPAREN \<and> isStrengthToken nexttok then front\<lparr>token := yP_PAR__STRENGTH\<rparr>
             else if tok = COLON then
               (if nexttok = yBEGIN then front\<lparr>token := yP_COLON__BEGIN\<rparr>
                else if nexttok = yFORK then front\<lparr>token := yP_COLON__FORK\<rparr>
                else front)
             else if tok = yCONST__LEX then
               (if nexttok = yREF then front\<lparr>token := yCONST__REF\<rparr>
                else front\<lparr>token := yCONST__ETC\<rparr>)
             else if tok = yGLOBAL__LEX then
               (if nexttok = yCLOCKING then front\<lparr>token := yGLOBAL__CLOCKING\<rparr>
                else if pedantic opt then front\<lparr>token := yGLOBAL__ETC\<rparr>
                else front\<lparr>token := yaID__LEX, strp := ''global''\<rparr>)
             else if tok = yLOCAL__LEX then
               (if nexttok = yP_COLONCOLON then front\<lparr>token := yLOCAL__COLONCOLON\<rparr>
                else front\<lparr>token := yLOCAL__ETC\<rparr>)
             else if tok = yNEW__LEX then
               (if nexttok = LPAREN then front\<lparr>token := yNEW__PAREN\<rparr>
                else front\<lparr>token := yNEW__ETC\<rparr>)
             else if tok = ySTATIC__LEX then
               (if nexttok = yCONSTRAINT then front\<lparr>token := ySTATIC__CONSTRAINT\<rparr>
                else front\<lparr>token := ySTATIC__ETC\<rparr>)
             else if tok = yTYPE__LEX then
               (let depth = tokenPipeScanTypeEq ahead 0;
                    postToken = peekTok ahead depth
                in if postToken = yP_EQUAL \<or> postToken = yP_NOTEQUAL
                      \<or> postToken = yP_CASEEQUAL \<or> postToken = yP_CASENOTEQUAL
                   then front\<lparr>token := yTYPE__EQ\<rparr>
                   else front\<lparr>token := yTYPE__ETC\<rparr>)
             else if tok = yVIRTUAL__LEX then
               (if nexttok = yCLASS then front\<lparr>token := yVIRTUAL__CLASS\<rparr>
                else if nexttok = yINTERFACE then front\<lparr>token := yVIRTUAL__INTERFACE\<rparr>
                else if nexttok = yaID__ETC \<or> nexttok = yaID__LEX
                  then front\<lparr>token := yVIRTUAL__anyID\<rparr>
                else front\<lparr>token := yVIRTUAL__ETC\<rparr>)
             else if tok = yWITH__LEX then
               (if nexttok = LPAREN then front\<lparr>token := yWITH__PAREN\<rparr>
                else if nexttok = LBRACK then front\<lparr>token := yWITH__BRA\<rparr>
                else if nexttok = LBRACE then front\<lparr>token := yWITH__CUR\<rparr>
                else front\<lparr>token := yWITH__ETC\<rparr>)
             else if tok = yaID__LEX then
               front\<lparr>token := tokenPipelineId ahead (token (m_tokenLastBison s)) tok\<rparr>
             else front)
      in s\<lparr>m_tokensAhead := rest, yylval := val\<rparr>)"

text \<open>
  \<^verbatim>\<open>tokenPipelineSym\<close>, in the order of its text.  First the lookup proper: under the
  pending scope \<^verbatim>\<open>nextId\<close>, which is then cleared, or upwards from the current scope.
\<close>

definition symLookup :: "parse_state \<Rightarrow> astnode option \<times> parse_state" where
  "symLookup s =
     (let name = strp (yylval s) in
      case nextId (symp s) of
        Some look_underp \<Rightarrow>
          (findIdFlat (symp s) look_underp name,
           s\<lparr>symp := (symp s)\<lparr>nextId := None\<rparr>,
             symQueries := symQueries s @ [(ForcedUnder, look_underp, name)]\<rparr>)
      | None \<Rightarrow>
          (findIdFallback (symp s) (symCurrentp (symp s)) name,
           s\<lparr>symQueries := symQueries s @ [(FindUpward, symCurrentp (symp s), name)]\<rparr>))"

text \<open>
  Then the block \<^verbatim>\<open>if (!foundp && !m_afterColonColon)\<close>: the lookup in the \<^verbatim>\<open>std\<close> package,
  made when that package exists, and the import \<^verbatim>\<open>std::*\<close> added to the \<^verbatim>\<open>$unit\<close> package
  when the lookup finds the name and \<^verbatim>\<open>v3Global.usesStdPackage()\<close> is still false.  (Without
  a \<^verbatim>\<open>std\<close> package \<^verbatim>\<open>foundp\<close> stays null and the second \<^verbatim>\<open>if\<close> does nothing.)
\<close>

definition symLookupStd :: "astnode option \<Rightarrow> parse_state \<Rightarrow> astnode option \<times> parse_state" where
  "symLookupStd foundp s =
     (if foundp = None \<and> \<not> m_afterColonColon s then
        (case stdPackagep s of
           None \<Rightarrow> (foundp, s)
         | Some stdpkgp \<Rightarrow>
             (let name = strp (yylval s);
                  foundp' = findIdFallback (symp s) (pkg_symEnt stdpkgp) name;
                  s1 = s\<lparr>symQueries := symQueries s @ [(StdPackage, pkg_symEnt stdpkgp, name)]\<rparr>
              in if foundp' \<noteq> None \<and> \<not> usesStdPackage s1 then
                   (foundp',
                    s1\<lparr>unitStmts := unitStmts s1
                           @ [AstPackageImport (pkg_fileline stdpkgp) (pkg_symEnt stdpkgp) ''*''],
                       usesStdPackage := True\<rparr>)
                 else (foundp', s1)))
      else (foundp, s))"

definition symResolve :: "parse_state \<Rightarrow> astnode option \<times> parse_state" where
  "symResolve s = (let (foundp, s1) = symLookup s in symLookupStd foundp s1)"

definition pkgNoDeclMsg :: "string \<Rightarrow> string" where
  "pkgNoDeclMsg name =
     ''Package/class '' @ [CHR 0x27] @ name @ [CHR 0x27]
       @ '' not found, and needs to be predeclared (IEEE 1800-2023 26.3)''"

text \<open>
  Last the two branches \<^verbatim>\<open>if (foundp) ... else ...\<close>.  \<^verbatim>\<open>if (!warned++)\<close> reads the counter
  and increments it whether or not the warning is given.
\<close>

definition symClassify :: "options \<Rightarrow> astnode option \<Rightarrow> parse_state \<Rightarrow> parse_state" where
  "symClassify opt foundp s =
     (let tok = token (yylval s) in
      case foundp of
        Some scp' \<Rightarrow>
          (let s1 = s\<lparr>yylval := (yylval s)\<lparr>scp := Some scp'\<rparr>\<rparr> in
           if tok = yaID__LEX then
             (if scp' = AstTypedef then s1\<lparr>yylval := (yylval s1)\<lparr>token := yaID__aTYPE\<rparr>\<rparr>
              else if scp' = AstTypedefFwd then s1\<lparr>yylval := (yylval s1)\<lparr>token := yaID__aTYPE\<rparr>\<rparr>
              else if scp' = AstClass then s1\<lparr>yylval := (yylval s1)\<lparr>token := yaID__aTYPE\<rparr>\<rparr>
              else if scp' = AstPackage then s1\<lparr>yylval := (yylval s1)\<lparr>token := yaID__ETC\<rparr>\<rparr>
              else s1\<lparr>yylval := (yylval s1)\<lparr>token := yaID__ETC\<rparr>\<rparr>)
           else if \<not> m_afterColonColon s1 \<and> strp (yylval s1) = ''std''
             then s1\<lparr>usesStdPackage := True\<rparr>
           else s1)
      | None \<Rightarrow>
          (let s1 = s\<lparr>yylval := (yylval s)\<lparr>scp := None\<rparr>\<rparr> in
           if tok = yaID__CC then
             (if \<not> bboxUnsup opt then
                (let s2 = s1\<lparr>warned := warned s1 + 1\<rparr> in
                 if warned s1 = 0
                 then s2\<lparr>warnings := warnings s2
                          @ [V3Warn (fl (yylval s1)) ''PKGNODECL'' (pkgNoDeclMsg (strp (yylval s1)))]\<rparr>
                 else s2)
              else s1)
           else if tok = yaID__LEX then s1\<lparr>yylval := (yylval s1)\<lparr>token := yaID__ETC\<rparr>\<rparr>
           else s1))"

definition tokenPipelineSym :: "options \<Rightarrow> parse_state \<Rightarrow> parse_state" where
  "tokenPipelineSym opt s =
     (let s1 = tokenPipeline opt s;
          tok = token (yylval s1);
          s2 = (if tok = yaID__LEX \<or> tok = yaID__CC then
                  (let (foundp, sa) = symResolve s1 in symClassify opt foundp sa)
                else s1)
      in s2\<lparr>m_afterColonColon := (token (yylval s2) = yP_COLONCOLON)\<rparr>)"

definition tokenToBison :: "options \<Rightarrow> parse_state \<Rightarrow> parse_state" where
  "tokenToBison opt s =
     (let s1 = tokenPipelineSym opt s
      in s1\<lparr>m_bisonLastFileline := fl (yylval s1), m_tokenLastBison := yylval s1\<rparr>)"

text \<open>
  A run of the parser: bison asks for one terminal at a time, and between two requests
  its actions may change the symbol table (scopes, entries, the pending \<open>nextId\<close>) and
  the \<^verbatim>\<open>std\<close> package in any way.  A run is given by the list of these changes, one before
  each request.
\<close>

type_synonym grammar_action = "symtab \<times> stdpkg option \<Rightarrow> symtab \<times> stdpkg option"

fun parseTokens :: "options \<Rightarrow> grammar_action list \<Rightarrow> parse_state \<Rightarrow> parse_state" where
  "parseTokens opt [] s = s"
| "parseTokens opt (g # gs) s =
     (let (sy, sp) = g (symp s, stdPackagep s)
      in parseTokens opt gs (tokenToBison opt (s\<lparr>symp := sy, stdPackagep := sp\<rparr>)))"

section \<open>The source-location stack\<close>

text \<open>
  Modelled from the spec: the class \<^verbatim>\<open>FileLine\<close>, which is declared in another file.
  A location has a filename, a line number, a running content-line counter, a
  warning-suppression set and a reference to its parent; locations live in a store and
  are referred to by address, so that a copy and its original can be told apart.
\<close>

record FileLine =
  fl_filename :: string
  fl_lineno :: int
  fl_contentLineno :: int
  fl_msgEn :: "nat set"
  fl_parent :: "flref option"

text \<open>
  The lexer's part of \<^verbatim>\<open>V3ParseImp\<close>: the store of locations with its next unused
  address, the current location \<^verbatim>\<open>m_lexFileline\<close>, the stack \<^verbatim>\<open>m_lexLintState\<close> of saved
  locations (its back is the end of the list) and the calls of \<^verbatim>\<open>v3error\<close>.
\<close>

record lex_state =
  flHeap :: "flref \<Rightarrow> FileLine"
  flNext :: flref
  m_lexFileline :: flref
  m_lexLintState :: "FileLine list"
  v3errors :: "(flref \<times> string) list"

text \<open>
  Modelled from the spec: \<^verbatim>\<open>new FileLine{fromp}\<close>, a fresh copy of the location at
  \<open>fromp\<close>, parent reference included, at an address not used before.
\<close>

definition newFileLine :: "flref \<Rightarrow> lex_state \<Rightarrow> flref \<times> lex_state" where
  "newFileLine fromp s =
     (flNext s, s\<lparr>flHeap := (flHeap s)(flNext s := flHeap s fromp), flNext := flNext s + 1\<rparr>)"

text \<open>
  Modelled from the spec: \<^verbatim>\<open>copyOrSameFileLine()\<close>, the snapshot of the current top taken
  on entering, without re-applying pending suppressions.
\<close>

definition copyOrSameFileLine :: "flref \<Rightarrow> lex_state \<Rightarrow> flref \<times> lex_state" where
  "copyOrSameFileLine this s = newFileLine this s"

text \<open>A method call \<^verbatim>\<open>p->f(...)\<close> that changes the location at address \<open>p\<close> in place.\<close>

definition flUpdate :: "flref \<Rightarrow> (FileLine \<Rightarrow> FileLine) \<Rightarrow> lex_state \<Rightarrow> lex_state" where
  "flUpdate p f s = s\<lparr>flHeap := (flHeap s)(p := f (flHeap s p))\<rparr>"

text \<open>Modelled from the spec: the setter \<^verbatim>\<open>parent(fileline)\<close> of the parent reference.\<close>

definition setParent :: "flref \<Rightarrow> FileLine \<Rightarrow> FileLine" where
  "setParent fileline f = f\<lparr>fl_parent := Some fileline\<rparr>"

text \<open>
  Modelled from the spec: \<^verbatim>\<open>contentLinenoFrom(fromp)\<close> carries the content-line counter
  over from the location left.
\<close>

definition contentLinenoFrom :: "FileLine \<Rightarrow> FileLine \<Rightarrow> FileLine" where
  "contentLinenoFrom fromp f = f\<lparr>fl_contentLineno := fl_contentLineno fromp\<rparr>"

text \<open>Modelled from the spec: the setters \<^verbatim>\<open>filename(name)\<close> and \<^verbatim>\<open>lineno(num)\<close>.\<close>

definition setFilename :: "string \<Rightarrow> FileLine \<Rightarrow> FileLine" where
  "setFilename name f = f\<lparr>fl_filename := name\<rparr>"

definition setLineno :: "int \<Rightarrow> FileLine \<Rightarrow> FileLine" where
  "setLineno num f = f\<lparr>fl_lineno := num\<rparr>"

text \<open>
  Modelled from the spec: \<^verbatim>\<open>applyIgnores()\<close> re-applies the pending warning-ignore
  ranges.  Which warnings they switch at a filename and line is a parameter \<open>ign\<close>.
\<close>

definition applyIgnores :: "(string \<Rightarrow> int \<Rightarrow> nat set \<Rightarrow> nat set) \<Rightarrow> FileLine \<Rightarrow> FileLine" where
  "applyIgnores ign f = f\<lparr>fl_msgEn := ign (fl_filename f) (fl_lineno f) (fl_msgEn f)\<rparr>"

text \<open>
  Modelled from the spec: \<^verbatim>\<open>warnStateFrom(from)\<close> takes the warning-suppression set of a
  saved location.
\<close>

definition warnStateFrom :: "FileLine \<Rightarrow> FileLine \<Rightarrow> FileLine" where
  "warnStateFrom fromp f = f\<lparr>fl_msgEn := fl_msgEn fromp\<rparr>"

text \<open>
  \<^verbatim>\<open>lexPpline\<close>.  The text of the directive is parsed by \<^verbatim>\<open>FileLine::lineDirectiveParse\<close>;
  the three values it yields (\<^verbatim>\<open>newFilename\<close>, \<^verbatim>\<open>newLineno\<close>, \<^verbatim>\<open>enterExit\<close>) are the
  argument \<open>directive\<close>.  The three blocks of the function come first: the branch
  \<^verbatim>\<open>enterExit == 1\<close>, the branch \<^verbatim>\<open>enterExit == 2\<close>, and the body of
  \<^verbatim>\<open>if (enterExit != -1)\<close>, which follows either branch.
\<close>

definition lexPplineEnter :: "lex_state \<Rightarrow> lex_state" where
  "lexPplineEnter s =
     (let (prevFl, sa) = copyOrSameFileLine (m_lexFileline s) s;
          (newFl, sb) = newFileLine prevFl sa;
          sc = sb\<lparr>m_lexFileline := newFl\<rparr>
      in flUpdate (m_lexFileline sc) (setParent prevFl) sc)"

definition lexPplineExit :: "lex_state \<Rightarrow> lex_state" where
  "lexPplineExit s =
     (let prevFl = m_lexFileline s in
      case fl_parent (flHeap s (m_lexFileline s)) of
        Some upFl \<Rightarrow>
          (let (newFl, sa) = newFileLine upFl s;
               sb = sa\<lparr>m_lexFileline := newFl\<rparr>
           in flUpdate (m_lexFileline sb) (contentLinenoFrom (flHeap sb prevFl)) sb)
      | None \<Rightarrow> s)"

definition lexPplineLine ::
  "(string \<Rightarrow> int \<Rightarrow> nat set \<Rightarrow> nat set) \<Rightarrow> string \<Rightarrow> int \<Rightarrow> lex_state \<Rightarrow> lex_state" where
  "lexPplineLine ign newFilename newLineno s =
     (let s1 = flUpdate (m_lexFileline s) (setFilename newFilename) s;
          s2 = flUpdate (m_lexFileline s1) (setLineno newLineno) s1
      in flUpdate (m_lexFileline s2) (applyIgnores ign) s2)"

definition lexPpline ::
  "(string \<Rightarrow> int \<Rightarrow> nat set \<Rightarrow> nat set) \<Rightarrow> string \<times> int \<times> int \<Rightarrow> lex_state \<Rightarrow> lex_state" where
  "lexPpline ign directive s =
     (let (newFilename, newLineno, enterExit) = directive;
          s1 = (if enterExit = 1 then lexPplineEnter s
                else if enterExit = 2 then lexPplineExit s
                else s)
      in if enterExit \<noteq> - 1 then lexPplineLine ign newFilename newLineno s1 else s1)"

text \<open>
  Modelled from the spec: the running content-line counter of the current location.
  The lexer advances it while it reads the lines between two directives; \<open>c\<close> is the
  value it has reached when the next directive comes.
\<close>

definition lexContentLineno :: "int \<Rightarrow> lex_state \<Rightarrow> lex_state" where
  "lexContentLineno c s = flUpdate (m_lexFileline s) (\<lambda>f. f\<lparr>fl_contentLineno := c\<rparr>) s"

text \<open>
  \<^verbatim>\<open>lexVerilatorCmtLintSave\<close> pushes a copy of the location \<^verbatim>\<open>*fl\<close>;
  \<^verbatim>\<open>lexVerilatorCmtLintRestore\<close> reports an error and returns when the stack is empty,
  and else takes the warning state of the back of the stack and pops it.
\<close>

definition lexVerilatorCmtLintSave :: "flref \<Rightarrow> lex_state \<Rightarrow> lex_state" where
  "lexVerilatorCmtLintSave flp s = s\<lparr>m_lexLintState := m_lexLintState s @ [flHeap s flp]\<rparr>"

definition lexVerilatorCmtLintRestore :: "flref \<Rightarrow> lex_state \<Rightarrow> lex_state" where
  "lexVerilatorCmtLintRestore flp s =
     (if m_lexLintState s = [] then
        s\<lparr>v3errors := v3errors s @ [(flp, ''/*verilator lint_restore*/ without matching save'')]\<rparr>
      else
        (let s1 = flUpdate flp (warnStateFrom (last (m_lexLintState s))) s
         in s1\<lparr>m_lexLintState := butlast (m_lexLintState s1)\<rparr>))"

section \<open>Feeding the lexer\<close>

text \<open>
  \<^verbatim>\<open>ppInputToLex\<close>.  \<open>buf\<close> holds the bytes written to the caller's buffer so far
  (\<^verbatim>\<open>memcpy(buf + got, ...)\<close> writes behind them), \<open>ppBuffers\<close> is the deque
  \<^verbatim>\<open>m_ppBuffers\<close> with its front at the head of the list.  The result is the buffer, the
  count returned and the deque left.
\<close>

function ppInputLoop :: "nat \<Rightarrow> string \<Rightarrow> nat \<Rightarrow> string list \<Rightarrow> string \<times> nat \<times> string list" where
  "ppInputLoop max_size buf got ppBuffers =
     (if got < max_size \<and> ppBuffers \<noteq> [] then
        (let front = hd ppBuffers;
             ppBuffers1 = tl ppBuffers;
             len = length front
         in if len > max_size - got then
              (let remainder = drop (max_size - got) front;
                   front' = take (max_size - got) front;
                   ppBuffers2 = remainder # ppBuffers1;
                   len' = max_size - got
               in ppInputLoop max_size (buf @ front') (got + len') ppBuffers2)
            else ppInputLoop max_size (buf @ front) (got + len) ppBuffers1)
      else (buf, got, ppBuffers))"
  by pat_completeness auto
termination
  by (relation "measure (\<lambda>(max_size, buf, got, ppBuffers). (max_size - got) + length ppBuffers)")
     (auto simp: neq_Nil_conv)

declare ppInputLoop.simps [simp del]

definition ppInputToLex :: "nat \<Rightarrow> string list \<Rightarrow> string \<times> nat \<times> string list" where
  "ppInputToLex max_size ppBuffers = ppInputLoop max_size [] 0 ppBuffers"

text \<open>
  The lexer calls \<^verbatim>\<open>ppInputToLex\<close> again and again: the chunks delivered by a sequence of
  calls with the given capacities, and the deque left after the last.
\<close>

fun ppInputCalls :: "nat list \<Rightarrow> string list \<Rightarrow> string list \<times> string list" where
  "ppInputCalls [] ppBuffers = ([], ppBuffers)"
| "ppInputCalls (max_size # sizes) ppBuffers =
     (let (buf, got, ppBuffers1) = ppInputToLex max_size ppBuffers;
          (bufs, ppBuffers2) = ppInputCalls sizes ppBuffers1
      in (take got buf # bufs, ppBuffers2))"

section \<open>The shapes that the specification names\<close>

text \<open>
  These definitions follow the words of the specification, not the code: a balanced
  group is an opening delimiter, a body in which the delimiters nest properly and which
  holds no end-of-input token, and the closing delimiter.
\<close>

inductive balanced :: "tokkind \<Rightarrow> tokkind \<Rightarrow> tokkind list \<Rightarrow> bool"
  for opn :: tokkind and cls :: tokkind where
  bal_Nil: "balanced opn cls []"
| bal_tok: "t \<noteq> TEOF \<Longrightarrow> t \<noteq> opn \<Longrightarrow> t \<noteq> cls \<Longrightarrow> balanced opn cls ts
            \<Longrightarrow> balanced opn cls (t # ts)"
| bal_grp: "balanced opn cls a \<Longrightarrow> balanced opn cls b
            \<Longrightarrow> balanced opn cls (opn # a @ cls # b)"

definition parenGroup :: "tokkind list \<Rightarrow> bool" where
  "parenGroup g \<longleftrightarrow> (\<exists>b. g = LPAREN # b @ [RPAREN] \<and> balanced LPAREN RPAREN b)"

definition bracketGroup :: "tokkind list \<Rightarrow> bool" where
  "bracketGroup g \<longleftrightarrow> (\<exists>b. g = LBRACK # b @ [RBRACK] \<and> balanced LBRACK RBRACK b)"

text \<open>
  A parameter group: \<^verbatim>\<open>#\<close> and a balanced parenthesis group or, in cell context, \<^verbatim>\<open>#\<close> and
  one number, time or identifier token.
\<close>

definition paramGroup :: "bool \<Rightarrow> tokkind list \<Rightarrow> bool" where
  "paramGroup forCell p \<longleftrightarrow>
     (\<exists>g. p = HASH # g \<and> parenGroup g)
     \<or> (forCell \<and> (\<exists>t. p = [HASH, t]
            \<and> (t = yaINTNUM \<or> t = yaFLOATNUM \<or> t = yaTIMENUM \<or> t = yaID__LEX)))"

text \<open>
  The cell-instantiation shape of the tokens after a module identifier: an optional
  parameter group, the instance identifier, any number of bracket groups, and \<^verbatim>\<open>(\<close>.
\<close>

definition cellShape :: "tokkind list \<Rightarrow> bool" where
  "cellShape ts \<longleftrightarrow>
     (\<exists>p bs rest. ts = p @ [yaID__LEX] @ concat bs @ [LPAREN] @ rest
        \<and> (p = [] \<or> paramGroup True p)
        \<and> (\<forall>b \<in> set bs. bracketGroup b))"

text \<open>The equality and inequality operators \<^verbatim>\<open>==\<close>, \<^verbatim>\<open>!=\<close>, \<^verbatim>\<open>===\<close> and \<^verbatim>\<open>!==\<close>.\<close>

definition isEqualityOp :: "tokkind \<Rightarrow> bool" where
  "isEqualityOp t \<longleftrightarrow>
     t = yP_EQUAL \<or> t = yP_NOTEQUAL \<or> t = yP_CASEEQUAL \<or> t = yP_CASENOTEQUAL"

text \<open>
  The next token resolves only through the \<^verbatim>\<open>std\<close> package: it is an identifier, the
  lookup proper finds nothing, the token does not follow \<^verbatim>\<open>::\<close>, and the \<^verbatim>\<open>std\<close> package
  exists and has the name.
\<close>

definition resolvesViaStd :: "options \<Rightarrow> parse_state \<Rightarrow> bool" where
  "resolvesViaStd opt s \<longleftrightarrow>
     (let s1 = tokenPipeline opt s in
      (token (yylval s1) = yaID__LEX \<or> token (yylval s1) = yaID__CC)
      \<and> fst (symLookup s1) = None
      \<and> \<not> m_afterColonColon s
      \<and> (case stdPackagep s of
             None \<Rightarrow> False
           | Some p \<Rightarrow> findIdFallback (symp s) (pkg_symEnt p) (strp (yylval s1)) \<noteq> None))"

text \<open>
  The next token is an identifier followed by \<^verbatim>\<open>::\<close> that no lookup finds, neither the
  lookup proper nor the one in the \<^verbatim>\<open>std\<close> package.
\<close>

definition unresolvedCC :: "options \<Rightarrow> parse_state \<Rightarrow> bool" where
  "unresolvedCC opt s \<longleftrightarrow>
     token (yylval (tokenPipeline opt s)) = yaID__CC
     \<and> fst (symResolve (tokenPipeline opt s)) = None"

text \<open>The current location, the top of the stack of source locations.\<close>

definition lexTop :: "lex_state \<Rightarrow> FileLine" where
  "lexTop s = flHeap s (m_lexFileline s)"

section \<open>Example inputs\<close>

definition mkTok :: "tokkind \<Rightarrow> string \<Rightarrow> yystype" where
  "mkTok k name = \<lparr>token = k, fl = 0, strp = name, scp = None\<rparr>"

text \<open>
  A symbol table in which scope \<open>1\<close> is current and knows the package \<^verbatim>\<open>std\<close>, and in
  which scope \<open>7\<close>, the \<^verbatim>\<open>std\<close> package, declares the class \<^verbatim>\<open>mailbox\<close>.
\<close>

definition exSymtab :: symtab where
  "exSymtab = \<lparr>nextId = None, symCurrentp = 1, findIdFlat = (\<lambda>_ _. None),
     findIdFallback = (\<lambda>sc n. if sc = 7 \<and> n = ''mailbox'' then Some AstClass
                               else if sc = 1 \<and> n = ''std'' then Some AstPackage else None)\<rparr>"

definition exState :: "yystype list \<Rightarrow> parse_state" where
  "exState ts = \<lparr>m_tokensAhead = ts, yylval = mkTok TEOF [], m_tokenLastBison = mkTok TEOF [],
     m_bisonLastFileline = 0, m_afterColonColon = False, symp = exSymtab,
     stdPackagep = Some \<lparr>pkg_fileline = 3, pkg_symEnt = 7\<rparr>, usesStdPackage = False,
     unitStmts = [], warned = 0, warnings = [], symQueries = []\<rparr>"

definition exOptions :: options where
  "exOptions = \<lparr>pedantic = False, bboxUnsup = False\<rparr>"

definition exFileLine :: FileLine where
  "exFileLine = \<lparr>fl_filename = ''top.v'', fl_lineno = 3, fl_contentLineno = 3,
     fl_msgEn = {1, 2}, fl_parent = None\<rparr>"

definition exLex :: lex_state where
  "exLex = \<lparr>flHeap = (\<lambda>_. exFileLine), flNext = 1, m_lexFileline = 0,
     m_lexLintState = [], v3errors = []\<rparr>"

section \<open>The scanners recognise the shapes\<close>

lemma peekTok_simps [simp]:
  "peekTok [] d = TEOF"
  "peekTok (t # ts) 0 = t"
  "peekTok (t # ts) (Suc d) = peekTok ts d"
  by (simp_all add: peekTok_def)

subsection \<open>The queue and the list of unconsumed tokens\<close>

text \<open>
  A peek returns what \<open>peekTok\<close> reads in the queue followed by the lexer's input, and
  leaves every later read of that sequence as it was.  This is why the scanners and the
  token pipeline work on one list of unconsumed tokens.
\<close>

lemma tokenPull_view:
  "peekTok (fst (tokenPull q) @ snd (tokenPull q)) k = peekTok (fst q @ snd q) k"
  by (cases q; cases "snd q")
     (auto simp: tokenPull_def yylexReadTok_def peekTok_def nth_append split: if_splits)

lemma tokenPeekp_view:
  "fst (tokenPeekp depth q) = peekTok (fst q @ snd q) depth
   \<and> (\<forall>k. peekTok (fst (snd (tokenPeekp depth q)) @ snd (snd (tokenPeekp depth q))) k
           = peekTok (fst q @ snd q) k)"
proof (induction depth q rule: tokenPeekp.induct)
  case (1 depth q)
  show ?case
  proof (cases "length (fst q) \<le> depth")
    case True
    then have eq: "tokenPeekp depth q = tokenPeekp depth (tokenPull q)"
      by (subst tokenPeekp.simps) simp
    show ?thesis using "1.IH"[OF True] by (simp add: eq tokenPull_view)
  next
    case False
    then have eq: "tokenPeekp depth q = (fst q ! depth, q)" by (subst tokenPeekp.simps) simp
    show ?thesis using False by (simp add: eq peekTok_def nth_append)
  qed
qed

subsection \<open>Balanced groups and the counting loops\<close>

lemma drop_Cons_peek:
  "drop d ts = t # xs \<Longrightarrow> peekTok ts d = t \<and> drop (Suc d) ts = xs"
proof -
  assume a: "drop d ts = t # xs"
  then have lt: "d < length ts" by (cases "d < length ts") auto
  from a lt have "ts ! d = t" by (metis nth_via_drop)
  moreover from a have "drop (Suc d) ts = xs" by (metis drop_Suc tl_drop list.sel(3))
  ultimately show ?thesis using lt by (simp add: peekTok_def)
qed

lemma peek_drop:
  "peekTok ts d \<noteq> TEOF \<Longrightarrow> drop d ts = peekTok ts d # drop (Suc d) ts"
  by (auto simp: peekTok_def Cons_nth_drop_Suc split: if_splits)

lemma scanParamLoop_skip:
  "balanced LPAREN RPAREN b \<Longrightarrow> drop d ts = b @ rest \<Longrightarrow> 0 < n
   \<Longrightarrow> scanParamLoop ts i d n = scanParamLoop ts i (d + length b) n"
proof (induction b arbitrary: d n rest rule: balanced.induct)
  case bal_Nil
  then show ?case by simp
next
  case (bal_tok t ts')
  from bal_tok.prems(1) have p: "peekTok ts d = t" "drop (Suc d) ts = ts' @ rest"
    using drop_Cons_peek[of d ts t "ts' @ rest"] by auto
  have "scanParamLoop ts i d n = scanParamLoop ts i (Suc d) n"
    using p(1) bal_tok.hyps by (subst scanParamLoop.simps) (simp add: Let_def)
  also have "\<dots> = scanParamLoop ts i (Suc d + length ts') n"
    using bal_tok.IH[OF p(2) bal_tok.prems(2)] .
  finally show ?case by simp
next
  case (bal_grp a b)
  from bal_grp.prems(1) have p: "peekTok ts d = LPAREN" "drop (Suc d) ts = a @ (RPAREN # b @ rest)"
    using drop_Cons_peek[of d ts LPAREN "a @ RPAREN # b @ rest"] by auto
  have q0: "drop (Suc d + length a) ts = RPAREN # b @ rest"
    using p(2) by (metis add.commute append_eq_conv_conj drop_drop)
  then have q: "peekTok ts (Suc d + length a) = RPAREN" "drop (Suc (Suc d + length a)) ts = b @ rest"
    using drop_Cons_peek[of "Suc d + length a" ts RPAREN "b @ rest"] by auto
  have "scanParamLoop ts i d n = scanParamLoop ts i (Suc d) (n + 1)"
    using p(1) by (subst scanParamLoop.simps) (simp add: Let_def)
  also have "\<dots> = scanParamLoop ts i (Suc d + length a) (n + 1)"
    using bal_grp.IH(1)[OF p(2), of "n + 1"] bal_grp.prems(2) by simp
  also have "\<dots> = scanParamLoop ts i (Suc (Suc d + length a)) n"
    using q(1) bal_grp.prems(2) by (subst scanParamLoop.simps) (simp add: Let_def)
  also have "\<dots> = scanParamLoop ts i (Suc (Suc d + length a) + length b) n"
    using bal_grp.IH(2)[OF q(2) bal_grp.prems(2)] .
  finally show ?case by (simp add: add.assoc)
qed


text \<open>Groups closed one after the other: each body followed by the closing delimiter.\<close>

abbreviation closed :: "tokkind \<Rightarrow> tokkind list list \<Rightarrow> tokkind list" where
  "closed cls bs \<equiv> concat (map (\<lambda>b. b @ [cls]) bs)"

lemma scanParamLoop_sound:
  "0 < n \<Longrightarrow> i \<le> d \<Longrightarrow> scanParamLoop ts i d n \<noteq> i
   \<Longrightarrow> \<exists>bs rest. int (length bs) = n \<and> (\<forall>b \<in> set bs. balanced LPAREN RPAREN b)
         \<and> drop d ts = closed RPAREN bs @ rest
         \<and> scanParamLoop ts i d n = d + length (closed RPAREN bs)"
proof (induction ts i d n rule: scanParamLoop.induct)
  case (1 ts i d n)
  let ?tok = "peekTok ts d"
  from "1.prems"(3) have ne: "?tok \<noteq> TEOF"
    by (subst (asm) scanParamLoop.simps) (auto simp: Let_def)
  note dr = peek_drop[OF ne]
  consider (op) "?tok = LPAREN" | (cl1) "?tok = RPAREN" "n = 1" | (cl) "?tok = RPAREN" "n \<noteq> 1"
    | (ot) "?tok \<noteq> LPAREN" "?tok \<noteq> RPAREN" by blast
  then show ?case
  proof cases
    case op
    have eq: "scanParamLoop ts i d n = scanParamLoop ts i (d + 1) (n + 1)"
      using op by (subst scanParamLoop.simps) (simp add: Let_def)
    from "1.IH"(1)[OF refl ne op] "1.prems" eq
    obtain bs rest where h: "int (length bs) = n + 1" "\<forall>b \<in> set bs. balanced LPAREN RPAREN b"
      "drop (d + 1) ts = closed RPAREN bs @ rest"
      "scanParamLoop ts i (d + 1) (n + 1) = d + 1 + length (closed RPAREN bs)"
      by auto
    from h(1) "1.prems"(1) obtain b1 b2 bs' where bs: "bs = b1 # b2 # bs'"
      by (cases bs; cases "tl bs") auto
    let ?bs = "(LPAREN # b1 @ RPAREN # b2) # bs'"
    have "int (length ?bs) = n" using h(1) bs by simp
    moreover have "\<forall>b \<in> set ?bs. balanced LPAREN RPAREN b"
      using h(2) bs by (auto intro: balanced.intros)
    moreover have "drop d ts = closed RPAREN ?bs @ rest"
      using dr op h(3) bs by simp
    moreover have "scanParamLoop ts i d n = d + length (closed RPAREN ?bs)"
      using eq h(4) bs by simp
    ultimately show ?thesis by blast
  next
    case cl1
    have eq: "scanParamLoop ts i d n = d + 1"
      using cl1 by (subst scanParamLoop.simps) (simp add: Let_def)
    let ?bs = "[[]] :: tokkind list list"
    have "int (length ?bs) = n" using cl1 by simp
    moreover have "\<forall>b \<in> set ?bs. balanced LPAREN RPAREN b"
      by (auto intro: balanced.intros)
    moreover have "drop d ts = closed RPAREN ?bs @ drop (Suc d) ts"
      using dr cl1 by simp
    moreover have "scanParamLoop ts i d n = d + length (closed RPAREN ?bs)"
      using eq by simp
    ultimately show ?thesis by blast
  next
    case cl
    have eq: "scanParamLoop ts i d n = scanParamLoop ts i (d + 1) (n - 1)"
      using cl by (subst scanParamLoop.simps) (simp add: Let_def)
    have "tokkind.CH CHR ''('' \<noteq> RPAREN" by simp
    with cl have nop: "?tok \<noteq> LPAREN" by simp
    from cl have n1: "n - 1 \<noteq> 0" by simp
    from "1.IH"(2)[OF refl ne nop cl(1) n1] "1.prems" eq cl
    obtain bs rest where h: "int (length bs) = n - 1" "\<forall>b \<in> set bs. balanced LPAREN RPAREN b"
      "drop (d + 1) ts = closed RPAREN bs @ rest"
      "scanParamLoop ts i (d + 1) (n - 1) = d + 1 + length (closed RPAREN bs)"
      by auto
    let ?bs = "[] # bs"
    have "int (length ?bs) = n" using h(1) by simp
    moreover have "\<forall>b \<in> set ?bs. balanced LPAREN RPAREN b"
      using h(2) by (auto intro: balanced.intros)
    moreover have "drop d ts = closed RPAREN ?bs @ rest"
      using dr cl h(3) by simp
    moreover have "scanParamLoop ts i d n = d + length (closed RPAREN ?bs)"
      using eq h(4) by simp
    ultimately show ?thesis by blast
  next
    case ot
    have eq: "scanParamLoop ts i d n = scanParamLoop ts i (d + 1) n"
      using ot ne by (subst scanParamLoop.simps) (simp add: Let_def)
    from "1.IH"(3)[OF refl ne ot] "1.prems" eq
    obtain bs rest where h: "int (length bs) = n" "\<forall>b \<in> set bs. balanced LPAREN RPAREN b"
      "drop (d + 1) ts = closed RPAREN bs @ rest"
      "scanParamLoop ts i (d + 1) n = d + 1 + length (closed RPAREN bs)"
      by auto
    from h(1) "1.prems"(1) obtain b1 bs' where bs: "bs = b1 # bs'"
      by (cases bs) auto
    let ?bs = "(?tok # b1) # bs'"
    have "int (length ?bs) = n" using h(1) bs by simp
    moreover have "\<forall>b \<in> set ?bs. balanced LPAREN RPAREN b"
      using h(2) bs ot ne by (auto intro: balanced.intros)
    moreover have "drop d ts = closed RPAREN ?bs @ rest"
      using dr h(3) bs by simp
    moreover have "scanParamLoop ts i d n = d + length (closed RPAREN ?bs)"
      using eq h(4) bs by simp
    ultimately show ?thesis by blast
  qed
qed


lemma scanBracketDo_step:
  "scanBracketDo ts d n =
     (if peekTok ts d = TEOF then None
      else if peekTok ts d = LBRACK then scanBracketDo ts (d + 1) (n + 1)
      else if n \<noteq> 0 \<and> peekTok ts d = RBRACK then
        (if n - 1 \<noteq> 0 then scanBracketDo ts (d + 1) (n - 1) else Some (d + 1, 0))
      else if n \<noteq> 0 then scanBracketDo ts (d + 1) n
      else Some (d, n))" if "0 \<le> n"
  using that by (subst scanBracketDo.simps) (auto simp: Let_def)

lemma scanBracketDo_skip:
  "balanced LBRACK RBRACK b \<Longrightarrow> drop d ts = b @ rest \<Longrightarrow> 0 < n
   \<Longrightarrow> scanBracketDo ts d n = scanBracketDo ts (d + length b) n"
proof (induction b arbitrary: d n rest rule: balanced.induct)
  case bal_Nil
  then show ?case by simp
next
  case (bal_tok t ts')
  from bal_tok.prems(1) have p: "peekTok ts d = t" "drop (Suc d) ts = ts' @ rest"
    using drop_Cons_peek[of d ts t "ts' @ rest"] by auto
  have "scanBracketDo ts d n = scanBracketDo ts (Suc d) n"
    using p(1) bal_tok.hyps bal_tok.prems(2) by (subst scanBracketDo_step) simp_all
  also have "\<dots> = scanBracketDo ts (Suc d + length ts') n"
    using bal_tok.IH[OF p(2) bal_tok.prems(2)] .
  finally show ?case by simp
next
  case (bal_grp a b)
  from bal_grp.prems(1) have p: "peekTok ts d = LBRACK" "drop (Suc d) ts = a @ (RBRACK # b @ rest)"
    using drop_Cons_peek[of d ts LBRACK "a @ RBRACK # b @ rest"] by auto
  have q0: "drop (Suc d + length a) ts = RBRACK # b @ rest"
    using p(2) by (metis add.commute append_eq_conv_conj drop_drop)
  then have q: "peekTok ts (Suc d + length a) = RBRACK" "drop (Suc (Suc d + length a)) ts = b @ rest"
    using drop_Cons_peek[of "Suc d + length a" ts RBRACK "b @ rest"] by auto
  have "scanBracketDo ts d n = scanBracketDo ts (Suc d) (n + 1)"
    using p(1) bal_grp.prems(2) by (subst scanBracketDo_step) simp_all
  also have "\<dots> = scanBracketDo ts (Suc d + length a) (n + 1)"
    using bal_grp.IH(1)[OF p(2), of "n + 1"] bal_grp.prems(2) by simp
  also have "\<dots> = scanBracketDo ts (Suc (Suc d + length a)) n"
    using q(1) bal_grp.prems(2) by (subst scanBracketDo_step) simp_all
  also have "\<dots> = scanBracketDo ts (Suc (Suc d + length a) + length b) n"
    using bal_grp.IH(2)[OF q(2) bal_grp.prems(2)] .
  finally show ?case by (simp add: add.assoc)
qed

lemma scanBracketDo_sound:
  "0 < n \<Longrightarrow> scanBracketDo ts d n = Some (d', n')
   \<Longrightarrow> n' = 0 \<and> (\<exists>bs rest. int (length bs) = n \<and> (\<forall>b \<in> set bs. balanced LBRACK RBRACK b)
         \<and> drop d ts = closed RBRACK bs @ rest
         \<and> d' = d + length (closed RBRACK bs))"
proof (induction ts d n rule: scanBracketDo.induct)
  case (1 ts d n)
  let ?tok = "peekTok ts d"
  from "1.prems" have ne: "?tok \<noteq> TEOF"
    by (subst (asm) scanBracketDo_step) (auto split: if_splits)
  note dr = peek_drop[OF ne]
  from "1.prems"(1) have n0: "0 \<le> n" "n \<noteq> 0" by auto
  consider (op) "?tok = LBRACK" | (cl1) "?tok = RBRACK" "n = 1" | (cl) "?tok = RBRACK" "n \<noteq> 1"
    | (ot) "?tok \<noteq> LBRACK" "?tok \<noteq> RBRACK" by blast
  then show ?case
  proof cases
    case op
    have eq: "scanBracketDo ts d n = scanBracketDo ts (d + 1) (n + 1)"
      using op n0 by (subst scanBracketDo_step) simp_all
    have "n' = 0 \<and> (\<exists>bs rest. int (length bs) = n + 1 \<and> (\<forall>b \<in> set bs. balanced LBRACK RBRACK b)
         \<and> drop (d + 1) ts = closed RBRACK bs @ rest
         \<and> d' = d + 1 + length (closed RBRACK bs))"
      using "1.prems" eq op ne by (intro "1.IH"[of ?tok "(n + 1, d + 1)" "n + 1" "d + 1"]) auto
    then obtain bs rest where h: "n' = 0" "int (length bs) = n + 1"
      "\<forall>b \<in> set bs. balanced LBRACK RBRACK b"
      "drop (d + 1) ts = closed RBRACK bs @ rest"
      "d' = d + 1 + length (closed RBRACK bs)"
      by auto
    from h(2) "1.prems"(1) obtain b1 b2 bs' where bs: "bs = b1 # b2 # bs'"
      by (cases bs; cases "tl bs") auto
    let ?bs = "(LBRACK # b1 @ RBRACK # b2) # bs'"
    have "int (length ?bs) = n" using h(2) bs by simp
    moreover have "\<forall>b \<in> set ?bs. balanced LBRACK RBRACK b"
      using h(3) bs by (auto intro: balanced.intros)
    moreover have "drop d ts = closed RBRACK ?bs @ rest"
      using dr op h(4) bs by simp
    moreover have "d' = d + length (closed RBRACK ?bs)"
      using h(5) bs by simp
    ultimately show ?thesis using h(1) by blast
  next
    case cl1
    have eq: "scanBracketDo ts d n = Some (d + 1, 0)"
      using cl1 by (subst scanBracketDo_step) simp_all
    let ?bs = "[[]] :: tokkind list list"
    have "int (length ?bs) = n" using cl1 by simp
    moreover have "\<forall>b \<in> set ?bs. balanced LBRACK RBRACK b"
      by (auto intro: balanced.intros)
    moreover have "drop d ts = closed RBRACK ?bs @ drop (Suc d) ts"
      using dr cl1 by simp
    moreover have "d' = d + length (closed RBRACK ?bs)" "n' = 0"
      using eq "1.prems" by simp_all
    ultimately show ?thesis by blast
  next
    case cl
    have eq: "scanBracketDo ts d n = scanBracketDo ts (d + 1) (n - 1)"
      using cl n0 by (subst scanBracketDo_step) simp_all
    have "n' = 0 \<and> (\<exists>bs rest. int (length bs) = n - 1 \<and> (\<forall>b \<in> set bs. balanced LBRACK RBRACK b)
         \<and> drop (d + 1) ts = closed RBRACK bs @ rest
         \<and> d' = d + 1 + length (closed RBRACK bs))"
      using "1.prems" eq cl ne n0 by (intro "1.IH"[of ?tok "(n - 1, d + 1)" "n - 1" "d + 1"]) auto
    then obtain bs rest where h: "n' = 0" "int (length bs) = n - 1"
      "\<forall>b \<in> set bs. balanced LBRACK RBRACK b"
      "drop (d + 1) ts = closed RBRACK bs @ rest"
      "d' = d + 1 + length (closed RBRACK bs)"
      by auto
    let ?bs = "[] # bs"
    have "int (length ?bs) = n" using h(2) by simp
    moreover have "\<forall>b \<in> set ?bs. balanced LBRACK RBRACK b"
      using h(3) by (auto intro: balanced.intros)
    moreover have "drop d ts = closed RBRACK ?bs @ rest"
      using dr cl h(4) by simp
    moreover have "d' = d + length (closed RBRACK ?bs)"
      using h(5) by simp
    ultimately show ?thesis using h(1) by blast
  next
    case ot
    have eq: "scanBracketDo ts d n = scanBracketDo ts (d + 1) n"
      using ot ne n0 by (subst scanBracketDo_step) simp_all
    have "n' = 0 \<and> (\<exists>bs rest. int (length bs) = n \<and> (\<forall>b \<in> set bs. balanced LBRACK RBRACK b)
         \<and> drop (d + 1) ts = closed RBRACK bs @ rest
         \<and> d' = d + 1 + length (closed RBRACK bs))"
      using "1.prems" eq ot ne n0 by (intro "1.IH"[of ?tok "(n, d + 1)" "n" "d + 1"]) auto
    then obtain bs rest where h: "n' = 0" "int (length bs) = n"
      "\<forall>b \<in> set bs. balanced LBRACK RBRACK b"
      "drop (d + 1) ts = closed RBRACK bs @ rest"
      "d' = d + 1 + length (closed RBRACK bs)"
      by auto
    from h(2) "1.prems"(1) obtain b1 bs' where bs: "bs = b1 # bs'"
      by (cases bs) auto
    let ?bs = "(?tok # b1) # bs'"
    have "int (length ?bs) = n" using h(2) bs by simp
    moreover have "\<forall>b \<in> set ?bs. balanced LBRACK RBRACK b"
      using h(3) bs ot ne by (auto intro: balanced.intros)
    moreover have "drop d ts = closed RBRACK ?bs @ rest"
      using dr h(4) bs by simp
    moreover have "d' = d + length (closed RBRACK ?bs)"
      using h(5) bs by simp
    ultimately show ?thesis using h(1) by blast
  qed
qed


lemma peekTok_drop: "peekTok ts d = peekTok (drop d ts) 0"
  by (simp add: peekTok_def)

lemma drop_append_shift: "drop d ts = xs @ ys \<Longrightarrow> drop (d + length xs) ts = ys"
  by (metis add.commute append_eq_conv_conj drop_drop)

lemma scanBracketDo_group:
  assumes "balanced LBRACK RBRACK b" and "drop d ts = LBRACK # b @ RBRACK # rest"
  shows "scanBracketDo ts d 0 = Some (d + length b + 2, 0)"
proof -
  from assms(2) have p: "peekTok ts d = LBRACK" "drop (Suc d) ts = b @ RBRACK # rest"
    using drop_Cons_peek[of d ts LBRACK "b @ RBRACK # rest"] by auto
  from drop_append_shift[OF p(2)]
  have q: "peekTok ts (Suc d + length b) = RBRACK"
    using drop_Cons_peek[of "Suc d + length b" ts RBRACK rest] by auto
  have "scanBracketDo ts d 0 = scanBracketDo ts (Suc d) 1"
    using p(1) by (subst scanBracketDo_step) simp_all
  also have "\<dots> = scanBracketDo ts (Suc d + length b) 1"
    using scanBracketDo_skip[OF assms(1) p(2), of 1] by simp
  also have "\<dots> = Some (d + length b + 2, 0)"
    using q by (subst scanBracketDo_step) simp_all
  finally show ?thesis .
qed

lemma scanBracketWhile_groups:
  "\<forall>b \<in> set bs. bracketGroup b \<Longrightarrow> drop d ts = concat bs @ rest
   \<Longrightarrow> peekTok rest 0 \<noteq> LBRACK
   \<Longrightarrow> scanBracketWhile ts i d 0 = d + length (concat bs)"
proof (induction bs arbitrary: d)
  case Nil
  then have "peekTok ts d \<noteq> LBRACK" by (simp add: peekTok_drop[of ts d])
  then show ?case by (subst scanBracketWhile.simps) simp
next
  case (Cons g bs)
  from Cons.prems(1) obtain b where g: "g = LBRACK # b @ [RBRACK]" "balanced LBRACK RBRACK b"
    by (auto simp: bracketGroup_def)
  from Cons.prems(2) g have dr: "drop d ts = LBRACK # b @ RBRACK # (concat bs @ rest)" by simp
  then have p: "peekTok ts d = LBRACK" using drop_Cons_peek by blast
  have dr': "drop (d + length b + 2) ts = concat bs @ rest"
    using drop_append_shift[of d ts "LBRACK # b @ [RBRACK]" "concat bs @ rest"] dr by simp
  have "scanBracketWhile ts i d 0 = scanBracketWhile ts i (d + length b + 2) 0"
    using p scanBracketDo_group[OF g(2) dr] by (subst scanBracketWhile.simps) simp
  also have "\<dots> = d + length b + 2 + length (concat bs)"
    using Cons.IH[OF _ dr' Cons.prems(3)] Cons.prems(1) by simp
  finally show ?case using g by simp
qed

lemma scanBracketWhile_result:
  "bra = 0 \<Longrightarrow>
     scanBracketWhile ts i d bra = i
     \<or> (\<exists>bs rest. (\<forall>b \<in> set bs. bracketGroup b) \<and> drop d ts = concat bs @ rest
           \<and> peekTok rest 0 \<noteq> LBRACK
           \<and> scanBracketWhile ts i d bra = d + length (concat bs))"
proof (induction ts i d bra rule: scanBracketWhile.induct)
  case (1 ts i d bra)
  show ?case
  proof (cases "peekTok ts d = LBRACK")
    case False
    then have eq: "scanBracketWhile ts i d bra = d" by (subst scanBracketWhile.simps) simp
    have "drop d ts = concat [] @ drop d ts" "peekTok (drop d ts) 0 \<noteq> LBRACK"
      using False peekTok_drop[of ts d] by simp_all
    with eq show ?thesis
      by (metis add.right_neutral concat.simps(1) empty_iff list.set(1) list.size(3))
  next
    case True
    show ?thesis
    proof (cases "scanBracketDo ts d bra")
      case None
      then have "scanBracketWhile ts i d bra = i" using True by (subst scanBracketWhile.simps) simp
      then show ?thesis by simp
    next
      case (Some r)
      obtain d' n' where r: "r = (d', n')" by (cases r)
      have ne: "peekTok ts d \<noteq> TEOF" using True by simp
      have st: "scanBracketDo ts d 0 = scanBracketDo ts (d + 1) 1"
        using True by (subst scanBracketDo_step) simp_all
      with Some r "1.prems"(1) have s1: "scanBracketDo ts (d + 1) 1 = Some (d', n')" by simp
      from scanBracketDo_sound[OF _ s1]
      obtain bs0 rest0 where h: "n' = 0" "int (length bs0) = 1"
        "\<forall>b \<in> set bs0. balanced LBRACK RBRACK b"
        "drop (d + 1) ts = closed RBRACK bs0 @ rest0" "d' = d + 1 + length (closed RBRACK bs0)"
        by auto
      from h(2) obtain b where bs0: "bs0 = [b]" by (cases bs0) auto
      have eq: "scanBracketWhile ts i d bra = scanBracketWhile ts i d' n'"
        using True Some r by (subst scanBracketWhile.simps) simp
      have dd: "drop d ts = LBRACK # b @ RBRACK # rest0"
        using peek_drop[OF ne] True h(4) bs0 by simp
      have d': "d' = d + length b + 2" using h(5) bs0 by simp
      have dr': "drop d' ts = rest0"
        using drop_append_shift[of d ts "LBRACK # b @ [RBRACK]" rest0] dd d' by simp
      let ?g = "LBRACK # b @ [RBRACK]"
      have g: "bracketGroup ?g" using h(3) bs0 by (auto simp: bracketGroup_def)
      from "1.IH"[OF True Some r[symmetric] h(1)]
      consider (miss) "scanBracketWhile ts i d' n' = i"
        | (hit) bs rest where "\<forall>b \<in> set bs. bracketGroup b" "drop d' ts = concat bs @ rest"
            "peekTok rest 0 \<noteq> LBRACK" "scanBracketWhile ts i d' n' = d' + length (concat bs)"
        by blast
      then show ?thesis
      proof cases
        case miss
        with eq show ?thesis by simp
      next
        case hit
        have "\<forall>b \<in> set (?g # bs). bracketGroup b" using g hit(1) by simp
        moreover have "drop d ts = concat (?g # bs) @ rest" using dd dr' hit(2) by simp
        moreover have "scanBracketWhile ts i d bra = d + length (concat (?g # bs))"
          using eq hit(4) d' by simp
        ultimately show ?thesis using hit(3) by blast
      qed
    qed
  qed
qed

lemma scanBracketWhile_sound:
  assumes "i = d \<or> peekTok ts i \<noteq> LPAREN"
    and "peekTok ts (scanBracketWhile ts i d 0) = LPAREN"
  shows "\<exists>bs rest. (\<forall>b \<in> set bs. bracketGroup b) \<and> drop d ts = concat bs @ LPAREN # rest
           \<and> scanBracketWhile ts i d 0 = d + length (concat bs)"
proof -
  let ?r = "scanBracketWhile ts i d 0"
  from scanBracketWhile_result[of 0 ts i d]
  consider (miss) "?r = i"
    | (hit) bs rest where "\<forall>b \<in> set bs. bracketGroup b" "drop d ts = concat bs @ rest"
        "?r = d + length (concat bs)"
    by blast
  then show ?thesis
  proof cases
    case miss
    with assms have r: "?r = d" and p: "peekTok ts d = LPAREN" by auto
    from p have "drop d ts = concat [] @ LPAREN # drop (Suc d) ts"
      using peek_drop[of ts d] by simp
    with r show ?thesis
      by (metis add.right_neutral concat.simps(1) empty_iff list.set(1) list.size(3))
  next
    case hit
    from drop_append_shift[OF hit(2)] hit(3) assms(2)
    have "peekTok rest 0 = LPAREN" using peekTok_drop[of ts ?r] by simp
    then obtain rest' where "rest = LPAREN # rest'" by (cases rest) auto
    with hit show ?thesis by blast
  qed
qed

lemma scanParam_paren:
  assumes "balanced LPAREN RPAREN b" and "drop d ts = HASH # LPAREN # b @ RPAREN # rest"
  shows "tokenPipeScanParam ts d forCell = d + length b + 3"
proof -
  from assms(2) have p0: "peekTok ts d = HASH" "drop (Suc d) ts = LPAREN # b @ RPAREN # rest"
    using drop_Cons_peek[of d ts HASH] by auto
  from p0(2) have p1: "peekTok ts (Suc d) = LPAREN" "drop (Suc (Suc d)) ts = b @ RPAREN # rest"
    using drop_Cons_peek[of "Suc d" ts LPAREN] by auto
  from drop_append_shift[OF p1(2)]
  have q: "peekTok ts (Suc (Suc d) + length b) = RPAREN"
    using drop_Cons_peek[of "Suc (Suc d) + length b" ts RPAREN rest] by auto
  have "tokenPipeScanParam ts d forCell = scanParamLoop ts d (Suc (Suc d)) 1"
    using p0(1) p1(1) by (simp add: tokenPipeScanParam_def Let_def)
  also have "\<dots> = scanParamLoop ts d (Suc (Suc d) + length b) 1"
    using scanParamLoop_skip[OF assms(1) p1(2), of 1 d] by simp
  also have "\<dots> = d + length b + 3"
    using q by (subst scanParamLoop.simps) (simp add: Let_def)
  finally show ?thesis .
qed

lemma scanParam_short:
  assumes "drop d ts = HASH # t # rest"
    and "t = yaINTNUM \<or> t = yaFLOATNUM \<or> t = yaTIMENUM \<or> t = yaID__LEX"
  shows "tokenPipeScanParam ts d True = d + 2"
proof -
  from assms(1) have p0: "peekTok ts d = HASH" "drop (Suc d) ts = t # rest"
    using drop_Cons_peek[of d ts HASH] by auto
  from p0(2) have p1: "peekTok ts (Suc d) = t"
    using drop_Cons_peek[of "Suc d" ts t] by auto
  show ?thesis using p0(1) p1 assms(2) by (auto simp: tokenPipeScanParam_def Let_def)
qed

lemma scanParam_sound:
  assumes "tokenPipeScanParam ts d forCell \<noteq> d"
  shows "\<exists>p rest. paramGroup forCell p \<and> drop d ts = p @ rest
           \<and> tokenPipeScanParam ts d forCell = d + length p"
proof -
  from assms have p0: "peekTok ts d = HASH"
    by (auto simp: tokenPipeScanParam_def split: if_splits)
  then have d0: "drop d ts = HASH # drop (Suc d) ts" using peek_drop[of ts d] by simp
  show ?thesis
  proof (cases "peekTok ts (Suc d) = LPAREN")
    case True
    then have d1: "drop (Suc d) ts = LPAREN # drop (Suc (Suc d)) ts"
      using peek_drop[of ts "Suc d"] by simp
    have eq: "tokenPipeScanParam ts d forCell = scanParamLoop ts d (d + 2) 1"
      using p0 True by (simp add: tokenPipeScanParam_def Let_def)
    with assms have "scanParamLoop ts d (d + 2) 1 \<noteq> d" by simp
    from scanParamLoop_sound[OF _ _ this]
    obtain bs rest where h: "int (length bs) = 1" "\<forall>b \<in> set bs. balanced LPAREN RPAREN b"
      "drop (d + 2) ts = closed RPAREN bs @ rest"
      "scanParamLoop ts d (d + 2) 1 = d + 2 + length (closed RPAREN bs)" by auto
    from h(1) obtain b where bs: "bs = [b]" by (cases bs) auto
    let ?p = "HASH # LPAREN # b @ [RPAREN]"
    have "paramGroup forCell ?p" using h(2) bs by (auto simp: paramGroup_def parenGroup_def)
    moreover have "drop d ts = ?p @ rest" using d0 d1 h(3) bs by simp
    moreover have "tokenPipeScanParam ts d forCell = d + length ?p" using eq h(4) bs by simp
    ultimately show ?thesis by blast
  next
    case False
    let ?t = "peekTok ts (Suc d)"
    from assms p0 False have fc: forCell
      and lit: "?t = yaINTNUM \<or> ?t = yaFLOATNUM \<or> ?t = yaTIMENUM \<or> ?t = yaID__LEX"
      and eq: "tokenPipeScanParam ts d forCell = d + 2"
      by (auto simp: tokenPipeScanParam_def Let_def split: if_splits)
    from lit have "?t \<noteq> TEOF" by auto
    then have d1: "drop (Suc d) ts = ?t # drop (Suc (Suc d)) ts" using peek_drop[of ts "Suc d"] by simp
    let ?p = "[HASH, ?t]"
    have "paramGroup forCell ?p" using fc lit by (simp add: paramGroup_def)
    moreover have "drop d ts = ?p @ drop (Suc (Suc d)) ts" using d0 d1 by simp
    moreover have "tokenPipeScanParam ts d forCell = d + length ?p" using eq by simp
    ultimately show ?thesis by blast
  qed
qed

lemma paramGroup_hd: "paramGroup forCell p \<Longrightarrow> \<exists>q. p = HASH # q"
  by (auto simp: paramGroup_def)

lemma scanIdCell_complete:
  assumes "cellShape ts"
  shows "tokenPipeScanIdCell ts 0 \<noteq> 0"
proof -
  from assms obtain p bs rest where sh: "ts = p @ [yaID__LEX] @ concat bs @ [LPAREN] @ rest"
    "p = [] \<or> paramGroup True p" "\<forall>b \<in> set bs. bracketGroup b"
    by (auto simp: cellShape_def)
  have sp: "tokenPipeScanParam ts 0 True = length p"
  proof (cases "p = []")
    case True
    then show ?thesis using sh(1) by (simp add: tokenPipeScanParam_def peekTok_def)
  next
    case False
    with sh(2) have pg: "paramGroup True p" by simp
    then consider (par) b where "p = HASH # LPAREN # b @ [RPAREN]" "balanced LPAREN RPAREN b"
      | (lit) t where "p = [HASH, t]" "t = yaINTNUM \<or> t = yaFLOATNUM \<or> t = yaTIMENUM \<or> t = yaID__LEX"
      by (auto simp: paramGroup_def parenGroup_def)
    then show ?thesis
    proof cases
      case par
      then show ?thesis using scanParam_paren[of b 0 ts _ True] sh(1) by simp
    next
      case lit
      then show ?thesis using scanParam_short[of 0 ts t _] sh(1) by simp
    qed
  qed
  have dp: "drop (length p) ts = yaID__LEX # concat bs @ LPAREN # rest" using sh(1) by simp
  then have pid: "peekTok ts (length p) = yaID__LEX"
    and d1: "drop (length p + 1) ts = concat bs @ LPAREN # rest"
    using drop_Cons_peek[of "length p" ts yaID__LEX] by auto
  have br: "tokenPipeScanBracket ts (length p + 1) = length p + 1 + length (concat bs)"
    unfolding tokenPipeScanBracket_def
    using scanBracketWhile_groups[OF sh(3) d1] by (simp add: peekTok_def)
  have "peekTok ts (length p + 1 + length (concat bs)) = LPAREN"
    using drop_append_shift[OF d1] drop_Cons_peek by blast
  then have "tokenPipeScanIdCell ts 0 = length p + 1 + length (concat bs)"
    using sp pid br by (simp add: tokenPipeScanIdCell_def Let_def)
  then show ?thesis by simp
qed

lemma scanIdCell_sound:
  assumes "tokenPipeScanIdCell ts 0 \<noteq> 0"
  shows "cellShape ts"
proof -
  let ?dp = "tokenPipeScanParam ts 0 True"
  from assms have pid: "peekTok ts ?dp = yaID__LEX"
    by (auto simp: tokenPipeScanIdCell_def Let_def split: if_splits)
  let ?db = "tokenPipeScanBracket ts (?dp + 1)"
  from assms pid have plp: "peekTok ts ?db = LPAREN"
    by (auto simp: tokenPipeScanIdCell_def Let_def split: if_splits)
  have "\<exists>p. (p = [] \<or> paramGroup True p) \<and> ?dp = length p \<and> take ?dp ts = p"
  proof (cases "?dp = 0")
    case True
    then show ?thesis by simp
  next
    case False
    from scanParam_sound[of ts 0 True] False
    obtain p rest where "paramGroup True p" "ts = p @ rest" "?dp = length p" by auto
    then show ?thesis by auto
  qed
  then obtain p where p: "p = [] \<or> paramGroup True p" "?dp = length p" "take ?dp ts = p" by blast
  from pid have d0: "drop ?dp ts = yaID__LEX # drop (?dp + 1) ts" using peek_drop[of ts ?dp] by simp
  from scanBracketWhile_sound[of "?dp + 1" "?dp + 1" ts] plp
  obtain bs rest where b: "\<forall>b \<in> set bs. bracketGroup b" "drop (?dp + 1) ts = concat bs @ LPAREN # rest"
    by (auto simp: tokenPipeScanBracket_def)
  have "ts = take ?dp ts @ drop ?dp ts" by simp
  also have "\<dots> = p @ [yaID__LEX] @ concat bs @ [LPAREN] @ rest" using p(3) d0 b(2) by simp
  finally show ?thesis using p(1) b(1) unfolding cellShape_def by blast
qed

lemma scanIdCell_iff: "tokenPipeScanIdCell ts 0 \<noteq> 0 \<longleftrightarrow> cellShape ts"
  using scanIdCell_sound scanIdCell_complete by blast

subsection \<open>What the three scanners return\<close>

lemma tokenPipeScanBracket_result:
  "\<exists>bs rest. (\<forall>b \<in> set bs. bracketGroup b) \<and> drop d ts = concat bs @ rest
     \<and> tokenPipeScanBracket ts d = d + length (concat bs)"
proof -
  from scanBracketWhile_result[of 0 ts d d]
  consider "tokenPipeScanBracket ts d = d"
    | bs rest where "\<forall>b \<in> set bs. bracketGroup b" "drop d ts = concat bs @ rest"
        "tokenPipeScanBracket ts d = d + length (concat bs)"
    unfolding tokenPipeScanBracket_def by blast
  then show ?thesis
  proof cases
    case 1
    then have "(\<forall>b \<in> set []. bracketGroup b) \<and> drop d ts = concat [] @ drop d ts
      \<and> tokenPipeScanBracket ts d = d + length (concat ([] :: tokkind list list))" by simp
    then show ?thesis by blast
  next
    case 2
    then show ?thesis by blast
  qed
qed

lemma tokenPipeScanParam_result:
  "tokenPipeScanParam ts d forCell = d
   \<or> (\<exists>p rest. paramGroup forCell p \<and> drop d ts = p @ rest
         \<and> tokenPipeScanParam ts d forCell = d + length p)"
  using scanParam_sound[of ts d forCell] by blast

lemma scanTypeEqLoop_scanParamLoop:
  "0 < n \<Longrightarrow> i \<le> d \<Longrightarrow>
     (scanParamLoop ts i d n = i \<longrightarrow> peekTok ts (scanTypeEqLoop ts d n) = TEOF)
     \<and> (scanParamLoop ts i d n \<noteq> i \<longrightarrow> scanTypeEqLoop ts d n = scanParamLoop ts i d n)"
proof (induction ts d n rule: scanTypeEqLoop.induct)
  case (1 ts d n)
  let ?tok = "peekTok ts d"
  consider (eof) "?tok = TEOF" | (op) "?tok = LPAREN" | (cl1) "?tok = RPAREN" "n = 1"
    | (cl) "?tok = RPAREN" "n \<noteq> 1" | (ot) "?tok \<noteq> TEOF" "?tok \<noteq> LPAREN" "?tok \<noteq> RPAREN"
    by blast
  then show ?case
  proof cases
    case eof
    then have "scanTypeEqLoop ts d n = d" "scanParamLoop ts i d n = i"
      by (subst scanTypeEqLoop.simps scanParamLoop.simps, simp add: Let_def)+
    with eof show ?thesis by simp
  next
    case op
    then have e: "scanTypeEqLoop ts d n = scanTypeEqLoop ts (d + 1) (n + 1)"
      "scanParamLoop ts i d n = scanParamLoop ts i (d + 1) (n + 1)"
      by (subst scanTypeEqLoop.simps scanParamLoop.simps, simp add: Let_def)+
    have "tokkind.CH CHR ''('' \<noteq> TEOF" by simp
    with op have ne: "?tok \<noteq> TEOF" by simp
    from "1.IH"(1)[OF refl ne op] "1.prems" show ?thesis by (simp add: e)
  next
    case cl1
    then have "scanTypeEqLoop ts d n = d + 1" "scanParamLoop ts i d n = d + 1"
      by (subst scanTypeEqLoop.simps scanParamLoop.simps, simp add: Let_def)+
    with "1.prems" show ?thesis by simp
  next
    case cl
    then have e: "scanTypeEqLoop ts d n = scanTypeEqLoop ts (d + 1) (n - 1)"
      "scanParamLoop ts i d n = scanParamLoop ts i (d + 1) (n - 1)"
      by (subst scanTypeEqLoop.simps scanParamLoop.simps, simp add: Let_def)+
    from cl have ne: "?tok \<noteq> TEOF" and nop: "?tok \<noteq> LPAREN" and n1: "n - 1 \<noteq> 0" by simp_all
    from "1.IH"(2)[OF refl ne nop cl(1) n1] "1.prems" cl(2) show ?thesis by (simp add: e)
  next
    case ot
    then have e: "scanTypeEqLoop ts d n = scanTypeEqLoop ts (d + 1) n"
      "scanParamLoop ts i d n = scanParamLoop ts i (d + 1) n"
      by (subst scanTypeEqLoop.simps scanParamLoop.simps, simp add: Let_def)+
    from "1.IH"(3)[OF refl ot] "1.prems" show ?thesis by (simp add: e)
  qed
qed

lemma scanTypeEqLoop_ge: "d \<le> scanTypeEqLoop ts d n"
proof (induction ts d n rule: scanTypeEqLoop.induct)
  case (1 ts d n)
  show ?case
    using "1.IH"
    by (subst scanTypeEqLoop.simps) (auto simp: Let_def intro: Suc_leD)
qed

lemma parenGroup_scanParamLoop:
  assumes "parenGroup g" and "drop d ts = g @ rest"
  shows "scanParamLoop ts i (d + 1) 1 = d + length g"
proof -
  from assms(1) obtain b where b: "g = LPAREN # b @ [RPAREN]" "balanced LPAREN RPAREN b"
    by (auto simp: parenGroup_def)
  with assms(2) have d1: "drop (d + 1) ts = b @ RPAREN # rest"
    using drop_Cons_peek[of d ts LPAREN "b @ RPAREN # rest"] by simp
  from drop_append_shift[OF d1] have p: "peekTok ts (d + 1 + length b) = RPAREN"
    using drop_Cons_peek by blast
  have "scanParamLoop ts i (d + 1) 1 = scanParamLoop ts i (d + 1 + length b) 1"
    using scanParamLoop_skip[OF b(2) d1, of 1 i] by simp
  also have "\<dots> = d + 1 + length b + 1"
    using p by (subst scanParamLoop.simps) (simp add: Let_def)
  finally show ?thesis using b(1) by simp
qed

text \<open>
  What \<^verbatim>\<open>tokenPipeScanTypeEq\<close> returns: its input when no \<^verbatim>\<open>(\<close> is there; the position of
  an end-of-input token when the \<^verbatim>\<open>(\<close> opens no balanced group; the position past the
  group otherwise.
\<close>

lemma tokenPipeScanTypeEq_result:
  "(peekTok ts d \<noteq> LPAREN \<and> tokenPipeScanTypeEq ts d = d)
   \<or> (peekTok ts d = LPAREN \<and> \<not> (\<exists>g rest. parenGroup g \<and> drop d ts = g @ rest)
       \<and> d < tokenPipeScanTypeEq ts d \<and> peekTok ts (tokenPipeScanTypeEq ts d) = TEOF)
   \<or> (\<exists>g rest. parenGroup g \<and> drop d ts = g @ rest
         \<and> tokenPipeScanTypeEq ts d = d + length g)"
proof (cases "peekTok ts d = LPAREN")
  case False
  then show ?thesis by (simp add: tokenPipeScanTypeEq_def)
next
  case True
  then have d0: "drop d ts = LPAREN # drop (Suc d) ts" using peek_drop[of ts d] by simp
  have eq: "tokenPipeScanTypeEq ts d = scanTypeEqLoop ts (d + 1) 1"
    using True by (simp add: tokenPipeScanTypeEq_def)
  have adv: "d < scanTypeEqLoop ts (d + 1) 1"
    using scanTypeEqLoop_ge[of "d + 1" ts 1] by simp
  show ?thesis
  proof (cases "scanParamLoop ts d (d + 1) 1 = d")
    case miss: True
    with scanTypeEqLoop_scanParamLoop[of 1 d "d + 1" ts]
    have "peekTok ts (tokenPipeScanTypeEq ts d) = TEOF" by (simp add: eq)
    moreover have "\<not> (\<exists>g rest. parenGroup g \<and> drop d ts = g @ rest)"
      using parenGroup_scanParamLoop[of _ d ts _ d] miss
      by (auto simp: parenGroup_def)
    ultimately show ?thesis using True adv eq by simp
  next
    case hit: False
    from scanParamLoop_sound[OF _ _ hit]
    obtain bs rest where h: "int (length bs) = 1" "\<forall>b \<in> set bs. balanced LPAREN RPAREN b"
      "drop (d + 1) ts = closed RPAREN bs @ rest"
      "scanParamLoop ts d (d + 1) 1 = d + 1 + length (closed RPAREN bs)" by auto
    from h(1) obtain b where bs: "bs = [b]" by (cases bs) auto
    let ?g = "LPAREN # b @ [RPAREN]"
    have "parenGroup ?g" using h(2) bs by (auto simp: parenGroup_def)
    moreover have "drop d ts = ?g @ rest" using d0 h(3) bs by simp
    moreover have "tokenPipeScanTypeEq ts d = d + length ?g"
      using scanTypeEqLoop_scanParamLoop[of 1 d "d + 1" ts] hit h(4) bs by (simp add: eq)
    ultimately show ?thesis by blast
  qed
qed

section \<open>Claims\<close>

subsection \<open>C1: what a scanner returns on a miss\<close>

text \<open>
  C1 says that each of the three scanners returns its input position when the scan
  misses, a miss at end of input inside an open group included.  The comment above
  \<^verbatim>\<open>tokenPipeScanTypeEq\<close> says the same (\<^emph>\<open>or input if not found\<close>), but the function leaves
  its loop with \<^verbatim>\<open>break\<close> at end of input: over \<^verbatim>\<open>( id\<close> and then the end of input it
  returns \<open>2\<close>, the position of the end-of-input token, where C1 asks for \<open>0\<close>.
  \<^verbatim>\<open>tokenPipeScanParam\<close> and \<^verbatim>\<open>tokenPipeScanBracket\<close> return the input position \<open>0\<close> over
  their unclosed groups.
\<close>

theorem C1_typeEq_eof_position:
  "tokenPipeScanTypeEq [LPAREN, yaID__LEX] 0 = 2
   \<and> tokenPipeScanParam [HASH, LPAREN, yaID__LEX] 0 False = 0
   \<and> tokenPipeScanBracket [LBRACK, yaID__LEX, LPAREN] 0 = 0"
  by code_simp

subsection \<open>What each stage of the pipeline leaves alone\<close>

lemma tokenPipeline_frame:
  "m_tokenLastBison (tokenPipeline opt s) = m_tokenLastBison s"
  "m_afterColonColon (tokenPipeline opt s) = m_afterColonColon s"
  "symp (tokenPipeline opt s) = symp s"
  "stdPackagep (tokenPipeline opt s) = stdPackagep s"
  "usesStdPackage (tokenPipeline opt s) = usesStdPackage s"
  "unitStmts (tokenPipeline opt s) = unitStmts s"
  "warned (tokenPipeline opt s) = warned s"
  "warnings (tokenPipeline opt s) = warnings s"
  "symQueries (tokenPipeline opt s) = symQueries s"
  by (simp_all add: tokenPipeline_def Let_def split: prod.splits)

lemma symLookup_frame:
  "yylval (snd (symLookup s)) = yylval s"
  "m_afterColonColon (snd (symLookup s)) = m_afterColonColon s"
  "stdPackagep (snd (symLookup s)) = stdPackagep s"
  "usesStdPackage (snd (symLookup s)) = usesStdPackage s"
  "unitStmts (snd (symLookup s)) = unitStmts s"
  "warned (snd (symLookup s)) = warned s"
  "warnings (snd (symLookup s)) = warnings s"
  "findIdFallback (symp (snd (symLookup s))) = findIdFallback (symp s)"
  by (simp_all add: symLookup_def Let_def split: option.splits)

lemma symLookup_queries:
  "\<exists>site sc. site \<noteq> StdPackage
     \<and> symQueries (snd (symLookup s)) = symQueries s @ [(site, sc, strp (yylval s))]"
  by (auto simp: symLookup_def Let_def split: option.splits)

lemma symLookupStd_frame:
  "yylval (snd (symLookupStd f s)) = yylval s"
  "m_afterColonColon (snd (symLookupStd f s)) = m_afterColonColon s"
  "stdPackagep (snd (symLookupStd f s)) = stdPackagep s"
  "warned (snd (symLookupStd f s)) = warned s"
  "warnings (snd (symLookupStd f s)) = warnings s"
  "symp (snd (symLookupStd f s)) = symp s"
  by (simp_all add: symLookupStd_def Let_def split: option.splits)

lemma symResolve_alt: "symResolve s = symLookupStd (fst (symLookup s)) (snd (symLookup s))"
  by (simp add: symResolve_def case_prod_beta)

lemma tokenPipelineSym_alt:
  "tokenPipelineSym opt s =
     (let s1 = tokenPipeline opt s;
          s2 = (if token (yylval s1) = yaID__LEX \<or> token (yylval s1) = yaID__CC
                then symClassify opt (fst (symResolve s1)) (snd (symResolve s1)) else s1)
      in s2\<lparr>m_afterColonColon := (token (yylval s2) = yP_COLONCOLON)\<rparr>)"
  by (simp add: tokenPipelineSym_def Let_def case_prod_beta)

lemma symResolve_frame:
  "yylval (snd (symResolve s)) = yylval s"
  "m_afterColonColon (snd (symResolve s)) = m_afterColonColon s"
  "warned (snd (symResolve s)) = warned s"
  "warnings (snd (symResolve s)) = warnings s"
  "stdPackagep (snd (symResolve s)) = stdPackagep s"
  by (simp_all add: symResolve_alt symLookupStd_frame symLookup_frame)

lemma symClassify_token:
  "token (yylval (symClassify opt f s)) =
     (if token (yylval s) = yaID__LEX then
        (case f of None \<Rightarrow> yaID__ETC
         | Some n \<Rightarrow> if n = AstTypedef \<or> n = AstTypedefFwd \<or> n = AstClass then yaID__aTYPE
                     else yaID__ETC)
      else token (yylval s))"
  by (simp add: symClassify_def Let_def split: option.splits)

lemma symClassify_frame:
  "unitStmts (symClassify opt f s) = unitStmts s"
  "symQueries (symClassify opt f s) = symQueries s"
  "stdPackagep (symClassify opt f s) = stdPackagep s"
  by (simp_all add: symClassify_def Let_def split: option.splits)

lemma tokenPipelineSym_token:
  "token (yylval (tokenPipelineSym opt s)) =
     (let s1 = tokenPipeline opt s in
      if token (yylval s1) = yaID__LEX then
        (case fst (symResolve s1) of None \<Rightarrow> yaID__ETC
         | Some n \<Rightarrow> if n = AstTypedef \<or> n = AstTypedefFwd \<or> n = AstClass then yaID__aTYPE
                     else yaID__ETC)
      else token (yylval s1))"
  by (simp add: tokenPipelineSym_alt Let_def symClassify_token symResolve_frame
      split: option.splits)

lemma tokenToBison_token:
  "token (yylval (tokenToBison opt s)) = token (yylval (tokenPipelineSym opt s))"
  by (simp add: tokenToBison_def Let_def)

lemma tokenToBison_strp:
  "strp (yylval (tokenToBison opt s)) = strp (yylval (tokenPipeline opt s))"
  by (simp add: tokenToBison_def tokenPipelineSym_alt Let_def symClassify_def symResolve_frame
      split: option.splits)

subsection \<open>C2: when the lookup in the std package is attempted\<close>

lemma symLookupStd_queries:
  "symQueries (snd (symLookupStd f s)) =
     symQueries s @
       (case stdPackagep s of
          Some p \<Rightarrow> if f = None \<and> \<not> m_afterColonColon s
                    then [(StdPackage, pkg_symEnt p, strp (yylval s))] else []
        | None \<Rightarrow> [])"
  by (simp add: symLookupStd_def Let_def split: option.splits)

lemma tokenPipelineSym_queries:
  "symQueries (tokenPipelineSym opt s) =
     (let s1 = tokenPipeline opt s in
      if token (yylval s1) = yaID__LEX \<or> token (yylval s1) = yaID__CC
      then symQueries (snd (symResolve s1)) else symQueries s)"
  by (simp add: tokenPipelineSym_alt Let_def symClassify_frame tokenPipeline_frame)

lemma tokenToBison_queries:
  "symQueries (tokenToBison opt s) = symQueries (tokenPipelineSym opt s)"
  by (simp add: tokenToBison_def Let_def)

lemma tokenToBison_afterColonColon:
  "m_afterColonColon (tokenToBison opt s)
     \<longleftrightarrow> token (m_tokenLastBison (tokenToBison opt s)) = yP_COLONCOLON"
  by (simp add: tokenToBison_def tokenPipelineSym_alt Let_def)

lemma tokenPipelineSym_std_queries:
  assumes "token (yylval (tokenPipeline opt s)) = yaID__LEX
           \<or> token (yylval (tokenPipeline opt s)) = yaID__CC"
  shows "symQueries (tokenPipelineSym opt s) =
     symQueries (snd (symLookup (tokenPipeline opt s))) @
       (case stdPackagep s of
          Some p \<Rightarrow> if fst (symLookup (tokenPipeline opt s)) = None \<and> \<not> m_afterColonColon s
                    then [(StdPackage, pkg_symEnt p, strp (yylval (tokenPipeline opt s)))] else []
        | None \<Rightarrow> [])"
  using assms
  by (auto simp: tokenPipelineSym_queries Let_def symResolve_alt symLookupStd_queries
      symLookup_frame tokenPipeline_frame split: option.splits)

lemma symResolve_result:
  "fst (symResolve s) =
     (if fst (symLookup s) = None \<and> \<not> m_afterColonColon s then
        (case stdPackagep s of
           None \<Rightarrow> None
         | Some p \<Rightarrow> findIdFallback (symp s) (pkg_symEnt p) (strp (yylval s)))
      else fst (symLookup s))"
  by (simp add: symResolve_alt symLookupStd_def symLookup_frame Let_def split: option.splits)

text \<open>
  C2, as amended.  Let \<open>s\<close> be the state that a call of \<^verbatim>\<open>tokenToBison\<close> leaves, and let
  the next token be an identifier (plain or followed by \<^verbatim>\<open>::\<close>).  The next call makes a
  lookup in the \<^verbatim>\<open>std\<close> package exactly when the lookup proper found nothing, the token that
  the call before handed to the grammar was not \<^verbatim>\<open>::\<close>, and a \<^verbatim>\<open>std\<close> package exists; the
  flag \<open>m_afterColonColon\<close> that the code tests says just that about the token before.
  After \<^verbatim>\<open>::\<close> the result is that of the lookup proper.  When the lookup in \<^verbatim>\<open>std\<close> is made
  it is the one query \<^verbatim>\<open>findIdFallback\<close> from the scope of the \<^verbatim>\<open>std\<close> package (not
  \<^verbatim>\<open>findIdFlat\<close>), and its answer is the result.  The last conjunct is the same condition for
  any state \<open>t\<close>, the first call of a run included, in terms of the flag.
\<close>

theorem C2_std_lookup_gate:
  assumes prev: "s = tokenToBison opt s0"
    and ident: "token (yylval (tokenPipeline opt s)) = yaID__LEX
                \<or> token (yylval (tokenPipeline opt s)) = yaID__CC"
  shows "((\<exists>sc n. (StdPackage, sc, n)
              \<in> set (drop (length (symQueries s)) (symQueries (tokenToBison opt s))))
          \<longleftrightarrow> fst (symLookup (tokenPipeline opt s)) = None
               \<and> token (m_tokenLastBison s) \<noteq> yP_COLONCOLON
               \<and> stdPackagep s \<noteq> None)
       \<and> (m_afterColonColon s \<longleftrightarrow> token (m_tokenLastBison s) = yP_COLONCOLON)
       \<and> (token (m_tokenLastBison s) = yP_COLONCOLON \<longrightarrow>
            fst (symResolve (tokenPipeline opt s)) = fst (symLookup (tokenPipeline opt s)))
       \<and> (\<forall>p. fst (symLookup (tokenPipeline opt s)) = None
               \<and> token (m_tokenLastBison s) \<noteq> yP_COLONCOLON \<and> stdPackagep s = Some p \<longrightarrow>
            drop (length (symQueries (snd (symLookup (tokenPipeline opt s)))))
                 (symQueries (tokenToBison opt s))
              = [(StdPackage, pkg_symEnt p, strp (yylval (tokenPipeline opt s)))]
            \<and> fst (symResolve (tokenPipeline opt s))
              = findIdFallback (symp s) (pkg_symEnt p) (strp (yylval (tokenPipeline opt s))))
       \<and> (token (yylval (tokenPipeline opt t)) = yaID__LEX
            \<or> token (yylval (tokenPipeline opt t)) = yaID__CC \<longrightarrow>
          ((\<exists>sc n. (StdPackage, sc, n)
              \<in> set (drop (length (symQueries t)) (symQueries (tokenPipelineSym opt t))))
           \<longleftrightarrow> fst (symLookup (tokenPipeline opt t)) = None \<and> \<not> m_afterColonColon t
                \<and> stdPackagep t \<noteq> None))"
proof -
  have cond: "(\<exists>sc n. (StdPackage, sc, n)
              \<in> set (drop (length (symQueries u)) (symQueries (tokenPipelineSym opt u))))
          \<longleftrightarrow> fst (symLookup (tokenPipeline opt u)) = None \<and> \<not> m_afterColonColon u
               \<and> stdPackagep u \<noteq> None"
    if u: "token (yylval (tokenPipeline opt u)) = yaID__LEX
           \<or> token (yylval (tokenPipeline opt u)) = yaID__CC" for u
  proof -
    let ?u1 = "tokenPipeline opt u"
    obtain site sc where q: "site \<noteq> StdPackage"
      "symQueries (snd (symLookup ?u1)) = symQueries u @ [(site, sc, strp (yylval ?u1))]"
      using symLookup_queries[of ?u1] by (auto simp: tokenPipeline_frame)
    have "symQueries (tokenPipelineSym opt u) =
       (symQueries u @ [(site, sc, strp (yylval ?u1))]) @
         (case stdPackagep u of
            Some p \<Rightarrow> if fst (symLookup ?u1) = None \<and> \<not> m_afterColonColon u
                      then [(StdPackage, pkg_symEnt p, strp (yylval ?u1))] else []
          | None \<Rightarrow> [])"
      using tokenPipelineSym_std_queries[OF u] q(2) by simp
    then show ?thesis
      using q(1) by (auto split: option.splits if_splits)
  qed
  let ?s1 = "tokenPipeline opt s"
  have b: "m_afterColonColon s \<longleftrightarrow> token (m_tokenLastBison s) = yP_COLONCOLON"
    unfolding prev by (rule tokenToBison_afterColonColon)
  have a: "(\<exists>sc n. (StdPackage, sc, n)
              \<in> set (drop (length (symQueries s)) (symQueries (tokenToBison opt s))))
          \<longleftrightarrow> fst (symLookup ?s1) = None \<and> token (m_tokenLastBison s) \<noteq> yP_COLONCOLON
               \<and> stdPackagep s \<noteq> None"
    using cond[OF ident] b by (simp add: tokenToBison_queries)
  have c: "token (m_tokenLastBison s) = yP_COLONCOLON \<longrightarrow>
            fst (symResolve ?s1) = fst (symLookup ?s1)"
    using b by (simp add: symResolve_result tokenPipeline_frame)
  have d: "\<forall>p. fst (symLookup ?s1) = None
               \<and> token (m_tokenLastBison s) \<noteq> yP_COLONCOLON \<and> stdPackagep s = Some p \<longrightarrow>
            drop (length (symQueries (snd (symLookup ?s1)))) (symQueries (tokenToBison opt s))
              = [(StdPackage, pkg_symEnt p, strp (yylval ?s1))]
            \<and> fst (symResolve ?s1)
              = findIdFallback (symp s) (pkg_symEnt p) (strp (yylval ?s1))"
    using b by (simp add: tokenToBison_queries tokenPipelineSym_std_queries[OF ident]
        symResolve_result tokenPipeline_frame)
  have e: "token (yylval (tokenPipeline opt t)) = yaID__LEX
            \<or> token (yylval (tokenPipeline opt t)) = yaID__CC \<longrightarrow>
          ((\<exists>sc n. (StdPackage, sc, n)
              \<in> set (drop (length (symQueries t)) (symQueries (tokenPipelineSym opt t))))
           \<longleftrightarrow> fst (symLookup (tokenPipeline opt t)) = None \<and> \<not> m_afterColonColon t
                \<and> stdPackagep t \<noteq> None)"
    using cond[of t] by blast
  show ?thesis by (intro conjI a b c d e)
qed

text \<open>
  C2 as stated fails: in \<^verbatim>\<open>pkg :: x\<close> the identifier \<^verbatim>\<open>pkg\<close> is colon-colon-qualified, the
  lookup proper finds nothing, and the lookup in the \<^verbatim>\<open>std\<close> package is made.
\<close>

theorem C2_colon_colon_identifier_counterexample:
  "token (yylval (tokenPipeline exOptions
      (exState [mkTok yaID__LEX ''pkg'', mkTok yP_COLONCOLON [], mkTok yaID__LEX ''x''])))
     = yaID__CC
   \<and> fst (symLookup (tokenPipeline exOptions
      (exState [mkTok yaID__LEX ''pkg'', mkTok yP_COLONCOLON [], mkTok yaID__LEX ''x''])))
     = None
   \<and> symQueries (tokenPipelineSym exOptions
      (exState [mkTok yaID__LEX ''pkg'', mkTok yP_COLONCOLON [], mkTok yaID__LEX ''x'']))
     = [(FindUpward, 1, ''pkg''), (StdPackage, 7, ''pkg'')]"
  by code_simp

text \<open>
  In \<^verbatim>\<open>pkg :: mailbox ;\<close> the third call, just after \<^verbatim>\<open>::\<close>, makes no lookup in the \<^verbatim>\<open>std\<close>
  package although the lookup proper finds nothing; in \<^verbatim>\<open>; mailbox ;\<close> the second call
  makes it.
\<close>

theorem C2_std_lookup_gate_witness:
  "token (m_tokenLastBison
      (tokenToBison exOptions (tokenToBison exOptions (exState
        [mkTok yaID__LEX ''pkg'', mkTok yP_COLONCOLON [], mkTok yaID__LEX ''mailbox'',
         mkTok SEMI []])))) = yP_COLONCOLON
   \<and> token (yylval (tokenPipeline exOptions
      (tokenToBison exOptions (tokenToBison exOptions (exState
        [mkTok yaID__LEX ''pkg'', mkTok yP_COLONCOLON [], mkTok yaID__LEX ''mailbox'',
         mkTok SEMI []]))))) = yaID__LEX
   \<and> fst (symLookup (tokenPipeline exOptions
      (tokenToBison exOptions (tokenToBison exOptions (exState
        [mkTok yaID__LEX ''pkg'', mkTok yP_COLONCOLON [], mkTok yaID__LEX ''mailbox'',
         mkTok SEMI []]))))) = None
   \<and> \<not> (\<exists>sc n. (StdPackage, sc, n) \<in> set (drop (length (symQueries
      (tokenToBison exOptions (tokenToBison exOptions (exState
        [mkTok yaID__LEX ''pkg'', mkTok yP_COLONCOLON [], mkTok yaID__LEX ''mailbox'',
         mkTok SEMI []])))))
      (symQueries (tokenToBison exOptions
      (tokenToBison exOptions (tokenToBison exOptions (exState
        [mkTok yaID__LEX ''pkg'', mkTok yP_COLONCOLON [], mkTok yaID__LEX ''mailbox'',
         mkTok SEMI []])))))))
   \<and> token (yylval (tokenPipeline exOptions
      (tokenToBison exOptions (exState
        [mkTok SEMI [], mkTok yaID__LEX ''mailbox'', mkTok SEMI []])))) = yaID__LEX
   \<and> (\<exists>sc n. (StdPackage, sc, n) \<in> set (drop (length (symQueries
      (tokenToBison exOptions (exState
        [mkTok SEMI [], mkTok yaID__LEX ''mailbox'', mkTok SEMI []]))))
      (symQueries (tokenToBison exOptions
      (tokenToBison exOptions (exState
        [mkTok SEMI [], mkTok yaID__LEX ''mailbox'', mkTok SEMI []]))))))"
proof -
  let ?c = "(tokenToBison exOptions (tokenToBison exOptions (exState
        [mkTok yaID__LEX ''pkg'', mkTok yP_COLONCOLON [], mkTok yaID__LEX ''mailbox'',
         mkTok SEMI []])))"
  let ?cp = "tokenToBison exOptions (exState
        [mkTok yaID__LEX ''pkg'', mkTok yP_COLONCOLON [], mkTok yaID__LEX ''mailbox'',
         mkTok SEMI []])"
  let ?m = "(tokenToBison exOptions (exState
        [mkTok SEMI [], mkTok yaID__LEX ''mailbox'', mkTok SEMI []]))"
  let ?mp = "exState [mkTok SEMI [], mkTok yaID__LEX ''mailbox'', mkTok SEMI []]"
  have c1: "token (m_tokenLastBison ?c) = yP_COLONCOLON" by code_simp
  have c2: "token (yylval (tokenPipeline exOptions ?c)) = yaID__LEX" by code_simp
  have c3: "fst (symLookup (tokenPipeline exOptions ?c)) = None" by code_simp
  have m1: "token (m_tokenLastBison ?m) \<noteq> yP_COLONCOLON" by code_simp
  have m2: "token (yylval (tokenPipeline exOptions ?m)) = yaID__LEX" by code_simp
  have m3: "fst (symLookup (tokenPipeline exOptions ?m)) = None" by code_simp
  have m4: "stdPackagep ?m \<noteq> None" by code_simp
  note tc = C2_std_lookup_gate[where s="?c" and ?s0.0="?cp" and opt=exOptions and t="?mp",
      OF refl disjI1[OF c2]]
  note tm = C2_std_lookup_gate[where s="?m" and ?s0.0="?mp" and opt=exOptions and t="?mp",
      OF refl disjI1[OF m2]]
  from tc c1 have qc: "\<not> (\<exists>sc n. (StdPackage, sc, n) \<in> set (drop (length (symQueries
      (tokenToBison exOptions (tokenToBison exOptions (exState
        [mkTok yaID__LEX ''pkg'', mkTok yP_COLONCOLON [], mkTok yaID__LEX ''mailbox'',
         mkTok SEMI []])))))
      (symQueries (tokenToBison exOptions
      (tokenToBison exOptions (tokenToBison exOptions (exState
        [mkTok yaID__LEX ''pkg'', mkTok yP_COLONCOLON [], mkTok yaID__LEX ''mailbox'',
         mkTok SEMI []])))))))" by blast
  from tm m1 m3 m4 have qm: "(\<exists>sc n. (StdPackage, sc, n) \<in> set (drop (length (symQueries
      (tokenToBison exOptions (exState
        [mkTok SEMI [], mkTok yaID__LEX ''mailbox'', mkTok SEMI []]))))
      (symQueries (tokenToBison exOptions
      (tokenToBison exOptions (exState
        [mkTok SEMI [], mkTok yaID__LEX ''mailbox'', mkTok SEMI []]))))))" by blast
  from c1 c2 c3 qc m2 qm show ?thesis by blast
qed

subsection \<open>C3: the implicit import of the std package\<close>

lemma symLookupStd_unit:
  "unitStmts (snd (symLookupStd f s)) =
     unitStmts s @
       (case stdPackagep s of
          Some p \<Rightarrow>
            if f = None \<and> \<not> m_afterColonColon s
               \<and> findIdFallback (symp s) (pkg_symEnt p) (strp (yylval s)) \<noteq> None
               \<and> \<not> usesStdPackage s
            then [AstPackageImport (pkg_fileline p) (pkg_symEnt p) ''*''] else []
        | None \<Rightarrow> [])"
  "usesStdPackage (snd (symLookupStd f s)) \<longleftrightarrow>
     usesStdPackage s
     \<or> (\<exists>p. stdPackagep s = Some p \<and> f = None \<and> \<not> m_afterColonColon s
            \<and> findIdFallback (symp s) (pkg_symEnt p) (strp (yylval s)) \<noteq> None)"
  by (auto simp: symLookupStd_def Let_def split: option.splits)

lemma symClassify_uses: "usesStdPackage s \<Longrightarrow> usesStdPackage (symClassify opt f s)"
  by (simp add: symClassify_def Let_def split: option.splits)

lemma symResolve_unit:
  "unitStmts (snd (symResolve s)) =
     unitStmts s @
       (case stdPackagep s of
          Some p \<Rightarrow>
            if fst (symLookup s) = None \<and> \<not> m_afterColonColon s
               \<and> findIdFallback (symp s) (pkg_symEnt p) (strp (yylval s)) \<noteq> None
               \<and> \<not> usesStdPackage s
            then [AstPackageImport (pkg_fileline p) (pkg_symEnt p) ''*''] else []
        | None \<Rightarrow> [])"
  by (simp add: symResolve_alt symLookupStd_unit symLookup_frame split: option.splits)

lemma symResolve_uses:
  "usesStdPackage (snd (symResolve s)) \<longleftrightarrow>
     usesStdPackage s
     \<or> (\<exists>p. stdPackagep s = Some p \<and> fst (symLookup s) = None \<and> \<not> m_afterColonColon s
            \<and> findIdFallback (symp s) (pkg_symEnt p) (strp (yylval s)) \<noteq> None)"
  by (simp add: symResolve_alt symLookupStd_unit symLookup_frame)

lemma tokenPipelineSym_unit:
  "unitStmts (tokenPipelineSym opt s) =
     (if token (yylval (tokenPipeline opt s)) = yaID__LEX
         \<or> token (yylval (tokenPipeline opt s)) = yaID__CC
      then unitStmts (snd (symResolve (tokenPipeline opt s))) else unitStmts s)"
  by (simp add: tokenPipelineSym_alt Let_def symClassify_frame tokenPipeline_frame)

lemma tokenToBison_unit:
  "unitStmts (tokenToBison opt s) =
     unitStmts s @
       (if resolvesViaStd opt s \<and> \<not> usesStdPackage s
        then (case stdPackagep s of
                Some p \<Rightarrow> [AstPackageImport (pkg_fileline p) (pkg_symEnt p) ''*'']
              | None \<Rightarrow> [])
        else [])"
proof -
  let ?s1 = "tokenPipeline opt s"
  have u: "unitStmts (tokenToBison opt s) = unitStmts (tokenPipelineSym opt s)"
    by (simp add: tokenToBison_def Let_def)
  show ?thesis
  proof (cases "token (yylval ?s1) = yaID__LEX \<or> token (yylval ?s1) = yaID__CC")
    case False
    then have "\<not> resolvesViaStd opt s" by (simp add: resolvesViaStd_def Let_def)
    with False u show ?thesis by (simp add: tokenPipelineSym_unit)
  next
    case True
    show ?thesis
    proof (cases "stdPackagep s")
      case None
      then have "\<not> resolvesViaStd opt s" by (simp add: resolvesViaStd_def Let_def)
      with True u None show ?thesis
        by (simp add: tokenPipelineSym_unit symResolve_unit tokenPipeline_frame)
    next
      case (Some p)
      then have "resolvesViaStd opt s \<longleftrightarrow>
          fst (symLookup ?s1) = None \<and> \<not> m_afterColonColon s
          \<and> findIdFallback (symp s) (pkg_symEnt p) (strp (yylval ?s1)) \<noteq> None"
        using True by (auto simp: resolvesViaStd_def Let_def)
      with True u Some show ?thesis
        by (simp add: tokenPipelineSym_unit symResolve_unit tokenPipeline_frame)
    qed
  qed
qed

lemma tokenToBison_uses:
  assumes "usesStdPackage s \<or> resolvesViaStd opt s"
  shows "usesStdPackage (tokenToBison opt s)"
proof -
  let ?s1 = "tokenPipeline opt s"
  have u: "usesStdPackage (tokenToBison opt s) = usesStdPackage (tokenPipelineSym opt s)"
    by (simp add: tokenToBison_def Let_def)
  show ?thesis
  proof (cases "token (yylval ?s1) = yaID__LEX \<or> token (yylval ?s1) = yaID__CC")
    case False
    then have "\<not> resolvesViaStd opt s" by (simp add: resolvesViaStd_def Let_def)
    with assms False u show ?thesis
      by (simp add: tokenPipelineSym_alt Let_def tokenPipeline_frame)
  next
    case True
    from assms have "usesStdPackage (snd (symResolve ?s1))"
      by (auto simp: symResolve_uses tokenPipeline_frame resolvesViaStd_def Let_def
          split: option.splits)
    then have "usesStdPackage (symClassify opt (fst (symResolve ?s1)) (snd (symResolve ?s1)))"
      by (rule symClassify_uses)
    with True u show ?thesis by (simp add: tokenPipelineSym_alt Let_def)
  qed
qed

lemma parseTokens_used:
  "usesStdPackage s \<Longrightarrow>
     unitStmts (parseTokens opt gs s) = unitStmts s \<and> usesStdPackage (parseTokens opt gs s)"
proof (induction gs arbitrary: s)
  case Nil
  then show ?case by simp
next
  case (Cons g gs)
  obtain sy sp where g: "g (symp s, stdPackagep s) = (sy, sp)" by (cases "g (symp s, stdPackagep s)")
  let ?s = "s\<lparr>symp := sy, stdPackagep := sp\<rparr>"
  have u: "usesStdPackage ?s" using Cons.prems by simp
  have "usesStdPackage (tokenToBison opt ?s)" using u by (simp add: tokenToBison_uses)
  moreover have "unitStmts (tokenToBison opt ?s) = unitStmts s"
    using u by (simp add: tokenToBison_unit)
  ultimately show ?case using Cons.IH[of "tokenToBison opt ?s"] g by simp
qed

lemma parseTokens_at_most_one:
  "\<exists>xs. unitStmts (parseTokens opt gs s) = unitStmts s @ xs \<and> length xs \<le> 1"
proof (induction gs arbitrary: s)
  case Nil
  then show ?case by simp
next
  case (Cons g gs)
  obtain sy sp where g: "g (symp s, stdPackagep s) = (sy, sp)" by (cases "g (symp s, stdPackagep s)")
  let ?s = "s\<lparr>symp := sy, stdPackagep := sp\<rparr>"
  let ?t = "tokenToBison opt ?s"
  have run: "parseTokens opt (g # gs) s = parseTokens opt gs ?t" using g by simp
  show ?case
  proof (cases "unitStmts ?t = unitStmts s")
    case True
    with Cons.IH[of ?t] run show ?thesis by simp
  next
    case False
    then have r: "resolvesViaStd opt ?s" and
      one: "\<exists>x. unitStmts ?t = unitStmts s @ [x]"
      by (auto simp: tokenToBison_unit split: if_splits option.splits)
    from r have "usesStdPackage ?t" by (simp add: tokenToBison_uses)
    from parseTokens_used[OF this, of opt gs] one run show ?thesis by auto
  qed
qed

text \<open>
  C3, as amended.  Over any run the import of \<^verbatim>\<open>std::*\<close> is added at most once, and never
  once the used-std flag is set.  An identifier that resolves only through the \<^verbatim>\<open>std\<close>
  package sets the flag, and adds the import exactly when the flag was not yet set;
  no other token adds an import.
\<close>

theorem C3_std_import_at_most_once:
  "length (unitStmts (parseTokens opt gs s)) \<le> length (unitStmts s) + 1
   \<and> (usesStdPackage s \<longrightarrow>
        unitStmts (parseTokens opt gs s) = unitStmts s \<and> usesStdPackage (parseTokens opt gs s))
   \<and> (resolvesViaStd opt s \<longrightarrow>
        usesStdPackage (tokenToBison opt s)
        \<and> (\<exists>p. stdPackagep s = Some p
             \<and> unitStmts (tokenToBison opt s) =
                 unitStmts s @ (if usesStdPackage s then []
                                else [AstPackageImport (pkg_fileline p) (pkg_symEnt p) ''*''])))
   \<and> (\<not> resolvesViaStd opt s \<longrightarrow> unitStmts (tokenToBison opt s) = unitStmts s)"
proof -
  from parseTokens_at_most_one[of opt gs s]
  have a: "length (unitStmts (parseTokens opt gs s)) \<le> length (unitStmts s) + 1" by auto
  have b: "usesStdPackage s \<longrightarrow>
        unitStmts (parseTokens opt gs s) = unitStmts s \<and> usesStdPackage (parseTokens opt gs s)"
    using parseTokens_used by blast
  have c: "usesStdPackage (tokenToBison opt s)
        \<and> (\<exists>p. stdPackagep s = Some p
             \<and> unitStmts (tokenToBison opt s) =
                 unitStmts s @ (if usesStdPackage s then []
                                else [AstPackageImport (pkg_fileline p) (pkg_symEnt p) ''*'']))"
    if r: "resolvesViaStd opt s"
  proof -
    from r obtain p where p: "stdPackagep s = Some p"
      by (cases "stdPackagep s") (auto simp: resolvesViaStd_def Let_def)
    with r show ?thesis by (simp add: tokenToBison_uses tokenToBison_unit)
  qed
  have d: "\<not> resolvesViaStd opt s \<longrightarrow> unitStmts (tokenToBison opt s) = unitStmts s"
    by (simp add: tokenToBison_unit)
  from a b c d show ?thesis by blast
qed

text \<open>
  C3 as stated fails: in \<^verbatim>\<open>std :: x ; mailbox m\<close> the identifier \<^verbatim>\<open>std\<close> is found as a
  package and sets the flag without an import, so that \<^verbatim>\<open>mailbox\<close>, the first identifier
  that resolves only through the \<^verbatim>\<open>std\<close> package, adds none.
\<close>

theorem C3_explicit_std_first_counterexample:
  "resolvesViaStd exOptions (parseTokens exOptions [id, id, id, id]
      (exState [mkTok yaID__LEX ''std'', mkTok yP_COLONCOLON [], mkTok yaID__LEX ''x'',
                mkTok SEMI [], mkTok yaID__LEX ''mailbox'', mkTok yaID__LEX ''m'']))
   \<and> yylval (parseTokens exOptions [id, id, id, id, id]
      (exState [mkTok yaID__LEX ''std'', mkTok yP_COLONCOLON [], mkTok yaID__LEX ''x'',
                mkTok SEMI [], mkTok yaID__LEX ''mailbox'', mkTok yaID__LEX ''m'']))
       = \<lparr>token = yaID__aTYPE, fl = 0, strp = ''mailbox'', scp = Some AstClass\<rparr>
   \<and> unitStmts (parseTokens exOptions [id, id, id, id, id]
      (exState [mkTok yaID__LEX ''std'', mkTok yP_COLONCOLON [], mkTok yaID__LEX ''x'',
                mkTok SEMI [], mkTok yaID__LEX ''mailbox'', mkTok yaID__LEX ''m''])) = []"
  by code_simp

theorem C3_std_import_at_most_once_witness:
  "resolvesViaStd exOptions (exState [mkTok yaID__LEX ''mailbox'', mkTok yaID__LEX ''mailbox''])
   \<and> unitStmts (tokenToBison exOptions
        (exState [mkTok yaID__LEX ''mailbox'', mkTok yaID__LEX ''mailbox'']))
      = [AstPackageImport 3 7 ''*'']
   \<and> unitStmts (parseTokens exOptions [id, id]
        (exState [mkTok yaID__LEX ''mailbox'', mkTok yaID__LEX ''mailbox'']))
      = [AstPackageImport 3 7 ''*'']
   \<and> length (unitStmts (parseTokens exOptions [id, id]
        (exState [mkTok yaID__LEX ''mailbox'', mkTok yaID__LEX ''mailbox'']))) \<le> 1"
proof -
  let ?s = "exState [mkTok yaID__LEX ''mailbox'', mkTok yaID__LEX ''mailbox'']"
  have r: "resolvesViaStd exOptions ?s" by code_simp
  have e: "unitStmts (parseTokens exOptions [id, id] ?s) = [AstPackageImport 3 7 ''*'']"
    by code_simp
  have f: "unitStmts ?s = []" "\<not> usesStdPackage ?s"
    "stdPackagep ?s = Some \<lparr>pkg_fileline = 3, pkg_symEnt = 7\<rparr>"
    by (simp_all add: exState_def)
  from C3_std_import_at_most_once[of exOptions "[id, id]" ?s] r e f
  show ?thesis by simp
qed

subsection \<open>C4: the cell-instantiation shape\<close>

lemma cellShape_first: "cellShape ts \<Longrightarrow> peekTok ts 0 = yaID__LEX \<or> peekTok ts 0 = HASH"
  by (auto simp: cellShape_def paramGroup_def)

text \<open>
  C4.  A plain identifier whose predecessor, the token finalized last, is none of
  \<^verbatim>\<open>@\<close>, \<^verbatim>\<open>#\<close> and \<^verbatim>\<open>.\<close> becomes identifier-as-cell exactly when the tokens after it have
  the cell-instantiation shape; this holds for the kind \<^verbatim>\<open>tokenPipeline\<close> gives and for the
  kind handed to bison.
\<close>

theorem C4_cell_instantiation:
  assumes "m_tokensAhead s = front # rest" and "token front = yaID__LEX"
    and "token (m_tokenLastBison s) \<noteq> ATSIGN" and "token (m_tokenLastBison s) \<noteq> HASH"
    and "token (m_tokenLastBison s) \<noteq> DOT"
  shows "(token (yylval (tokenPipeline opt s)) = yaID__aCELL \<longleftrightarrow> cellShape (map token rest))
       \<and> (token (yylval (tokenToBison opt s)) = yaID__aCELL \<longleftrightarrow> cellShape (map token rest))"
proof -
  let ?ahead = "map token rest"
  have tp: "token (yylval (tokenPipeline opt s))
      = tokenPipelineId ?ahead (token (m_tokenLastBison s)) yaID__LEX"
    using assms(1,2) by (simp add: tokenPipeline_def lookaheadToken_def Let_def)
  have a: "tokenPipelineId ?ahead (token (m_tokenLastBison s)) yaID__LEX = yaID__aCELL
      \<longleftrightarrow> cellShape ?ahead"
  proof (cases "peekTok ?ahead 0 = yP_COLONCOLON")
    case True
    then have "\<not> cellShape ?ahead" using cellShape_first[of ?ahead] by auto
    with True show ?thesis by (simp add: tokenPipelineId_def)
  next
    case False
    then show ?thesis using assms(3,4,5) scanIdCell_iff[of ?ahead]
      by (auto simp: tokenPipelineId_def Let_def)
  qed
  have b: "token (yylval (tokenToBison opt s)) = yaID__aCELL
      \<longleftrightarrow> token (yylval (tokenPipeline opt s)) = yaID__aCELL"
    by (auto simp: tokenToBison_token tokenPipelineSym_token Let_def split: option.splits if_splits)
  from tp a b show ?thesis by simp
qed

lemma cellShape_example: "cellShape [yaID__LEX, LPAREN]"
  unfolding cellShape_def
  by (rule exI[of _ "[]"], rule exI[of _ "[]"], rule exI[of _ "[]"]) simp

theorem C4_cell_instantiation_witness:
  "token (yylval (tokenToBison exOptions
      (exState [mkTok yaID__LEX ''foo'', mkTok yaID__LEX ''bar'', mkTok LPAREN []]))) = yaID__aCELL
   \<and> token (yylval (tokenToBison exOptions
      (exState [mkTok yaID__LEX ''foo'', mkTok yaID__LEX ''bar'', mkTok SEMI []]))) \<noteq> yaID__aCELL
   \<and> cellShape [yaID__LEX, LPAREN] \<and> \<not> cellShape [yaID__LEX, SEMI]"
proof -
  have p: "token (yylval (tokenPipeline exOptions
      (exState [mkTok yaID__LEX ''foo'', mkTok yaID__LEX ''bar'', mkTok SEMI []]))) \<noteq> yaID__aCELL"
    by code_simp
  from C4_cell_instantiation[of
      "exState [mkTok yaID__LEX ''foo'', mkTok yaID__LEX ''bar'', mkTok LPAREN []]"
      "mkTok yaID__LEX ''foo''" "[mkTok yaID__LEX ''bar'', mkTok LPAREN []]" exOptions]
    C4_cell_instantiation[of
      "exState [mkTok yaID__LEX ''foo'', mkTok yaID__LEX ''bar'', mkTok SEMI []]"
      "mkTok yaID__LEX ''foo''" "[mkTok yaID__LEX ''bar'', mkTok SEMI []]" exOptions]
    cellShape_example p
  show ?thesis by (simp add: exState_def mkTok_def)
qed

subsection \<open>C5: identifiers that no lookup finds\<close>

lemma symClassify_warn:
  "warned (symClassify opt f s) =
     warned s + (if f = None \<and> token (yylval s) = yaID__CC \<and> \<not> bboxUnsup opt then 1 else 0)"
  "warnings (symClassify opt f s) =
     warnings s @
       (if f = None \<and> token (yylval s) = yaID__CC \<and> \<not> bboxUnsup opt \<and> warned s = 0
        then [V3Warn (fl (yylval s)) ''PKGNODECL'' (pkgNoDeclMsg (strp (yylval s)))] else [])"
  by (simp_all add: symClassify_def Let_def split: option.splits)

lemma tokenToBison_warn:
  "warned (tokenToBison opt s) =
     warned s + (if unresolvedCC opt s \<and> \<not> bboxUnsup opt then 1 else 0)"
  "warnings (tokenToBison opt s) =
     warnings s @
       (if unresolvedCC opt s \<and> \<not> bboxUnsup opt \<and> warned s = 0
        then [V3Warn (fl (yylval (tokenPipeline opt s))) ''PKGNODECL''
                (pkgNoDeclMsg (strp (yylval (tokenPipeline opt s))))] else [])"
  by (simp_all add: tokenToBison_def tokenPipelineSym_alt Let_def symClassify_warn
      symResolve_frame tokenPipeline_frame unresolvedCC_def)

lemma parseTokens_warned:
  "0 < warned s \<or> bboxUnsup opt \<Longrightarrow> warnings (parseTokens opt gs s) = warnings s"
proof (induction gs arbitrary: s)
  case Nil
  then show ?case by simp
next
  case (Cons g gs)
  obtain sy sp where g: "g (symp s, stdPackagep s) = (sy, sp)" by (cases "g (symp s, stdPackagep s)")
  let ?s = "s\<lparr>symp := sy, stdPackagep := sp\<rparr>"
  let ?t = "tokenToBison opt ?s"
  from Cons.prems have "0 < warned ?t \<or> bboxUnsup opt" by (auto simp: tokenToBison_warn)
  moreover from Cons.prems have "warnings ?t = warnings s" by (auto simp: tokenToBison_warn)
  ultimately show ?case using Cons.IH[of ?t] g by simp
qed

lemma parseTokens_warn_once:
  "warned s = 0 \<Longrightarrow> \<exists>xs. warnings (parseTokens opt gs s) = warnings s @ xs \<and> length xs \<le> 1"
proof (induction gs arbitrary: s)
  case Nil
  then show ?case by simp
next
  case (Cons g gs)
  obtain sy sp where g: "g (symp s, stdPackagep s) = (sy, sp)" by (cases "g (symp s, stdPackagep s)")
  let ?s = "s\<lparr>symp := sy, stdPackagep := sp\<rparr>"
  let ?t = "tokenToBison opt ?s"
  have run: "parseTokens opt (g # gs) s = parseTokens opt gs ?t" using g by simp
  show ?case
  proof (cases "unresolvedCC opt ?s \<and> \<not> bboxUnsup opt")
    case True
    with Cons.prems have "0 < warned ?t" "\<exists>x. warnings ?t = warnings s @ [x]"
      by (simp_all add: tokenToBison_warn)
    with parseTokens_warned[of ?t opt gs] run show ?thesis by auto
  next
    case False
    with Cons.prems have "warned ?t = 0" "warnings ?t = warnings s"
      by (auto simp: tokenToBison_warn)
    with Cons.IH[of ?t] run show ?thesis by simp
  qed
qed

text \<open>
  C5.  An identifier followed by \<^verbatim>\<open>::\<close> that no lookup finds keeps its kind, and the
  warning \<^verbatim>\<open>PKGNODECL\<close> is given for it only when \<^verbatim>\<open>bboxUnsup\<close> is off and no such
  identifier was met before; a plain identifier that no lookup finds becomes
  \<^verbatim>\<open>yaID__ETC\<close> without a warning.  Over any run that starts with the counter at zero
  at most one warning is given, and none when the counter is positive or \<^verbatim>\<open>bboxUnsup\<close>
  is on.
\<close>

theorem C5_unresolved_identifier:
  "(token (yylval (tokenPipeline opt s)) = yaID__CC
      \<and> fst (symResolve (tokenPipeline opt s)) = None \<longrightarrow>
        token (yylval (tokenToBison opt s)) = yaID__CC
        \<and> warnings (tokenToBison opt s) =
            warnings s @
              (if \<not> bboxUnsup opt \<and> warned s = 0
               then [V3Warn (fl (yylval (tokenPipeline opt s))) ''PKGNODECL''
                       (pkgNoDeclMsg (strp (yylval (tokenPipeline opt s))))]
               else []))
   \<and> (token (yylval (tokenPipeline opt s)) = yaID__LEX
      \<and> fst (symResolve (tokenPipeline opt s)) = None \<longrightarrow>
        token (yylval (tokenToBison opt s)) = yaID__ETC
        \<and> warnings (tokenToBison opt s) = warnings s)
   \<and> (warned s = 0 \<longrightarrow>
        length (warnings (parseTokens opt gs s)) \<le> length (warnings s) + 1)
   \<and> (0 < warned s \<or> bboxUnsup opt \<longrightarrow> warnings (parseTokens opt gs s) = warnings s)"
proof -
  have a: "token (yylval (tokenToBison opt s)) = yaID__CC
        \<and> warnings (tokenToBison opt s) =
            warnings s @
              (if \<not> bboxUnsup opt \<and> warned s = 0
               then [V3Warn (fl (yylval (tokenPipeline opt s))) ''PKGNODECL''
                       (pkgNoDeclMsg (strp (yylval (tokenPipeline opt s))))]
               else [])"
    if "token (yylval (tokenPipeline opt s)) = yaID__CC"
      "fst (symResolve (tokenPipeline opt s)) = None"
    using that
    by (simp add: tokenToBison_token tokenPipelineSym_token Let_def tokenToBison_warn
        unresolvedCC_def)
  have b: "token (yylval (tokenToBison opt s)) = yaID__ETC
        \<and> warnings (tokenToBison opt s) = warnings s"
    if "token (yylval (tokenPipeline opt s)) = yaID__LEX"
      "fst (symResolve (tokenPipeline opt s)) = None"
    using that
    by (simp add: tokenToBison_token tokenPipelineSym_token Let_def tokenToBison_warn
        unresolvedCC_def)
  have c: "length (warnings (parseTokens opt gs s)) \<le> length (warnings s) + 1"
    if "warned s = 0"
    using parseTokens_warn_once[OF that, of opt gs] by auto
  have d: "warnings (parseTokens opt gs s) = warnings s" if "0 < warned s \<or> bboxUnsup opt"
    using that by (rule parseTokens_warned)
  from a b c d show ?thesis by blast
qed

theorem C5_unresolved_identifier_witness:
  "yylval (tokenToBison exOptions (exState [mkTok yaID__LEX ''pkg'', mkTok yP_COLONCOLON []]))
     = mkTok yaID__CC ''pkg''
   \<and> warnings (tokenToBison exOptions (exState [mkTok yaID__LEX ''pkg'', mkTok yP_COLONCOLON []]))
     = [V3Warn 0 ''PKGNODECL'' (pkgNoDeclMsg ''pkg'')]
   \<and> warnings (tokenToBison (exOptions\<lparr>bboxUnsup := True\<rparr>)
        (exState [mkTok yaID__LEX ''pkg'', mkTok yP_COLONCOLON []])) = []
   \<and> yylval (tokenToBison exOptions (exState [mkTok yaID__LEX ''wire1'', mkTok SEMI []]))
     = mkTok yaID__ETC ''wire1''
   \<and> warnings (tokenToBison exOptions (exState [mkTok yaID__LEX ''wire1'', mkTok SEMI []])) = []
   \<and> length (warnings (parseTokens exOptions [id, id, id, id]
        (exState [mkTok yaID__LEX ''p'', mkTok yP_COLONCOLON [],
                  mkTok yaID__LEX ''q'', mkTok yP_COLONCOLON []]))) \<le> 1"
proof -
  let ?s = "exState [mkTok yaID__LEX ''pkg'', mkTok yP_COLONCOLON []]"
  let ?t = "exState [mkTok yaID__LEX ''wire1'', mkTok SEMI []]"
  let ?u = "exState [mkTok yaID__LEX ''p'', mkTok yP_COLONCOLON [],
                  mkTok yaID__LEX ''q'', mkTok yP_COLONCOLON []]"
  have e: "yylval (tokenToBison exOptions ?s) = mkTok yaID__CC ''pkg''"
    "yylval (tokenToBison exOptions ?t) = mkTok yaID__ETC ''wire1''"
    "yylval (tokenPipeline exOptions ?s) = mkTok yaID__CC ''pkg''"
    "yylval (tokenPipeline (exOptions\<lparr>bboxUnsup := True\<rparr>) ?s) = mkTok yaID__CC ''pkg''"
    "yylval (tokenPipeline exOptions ?t) = mkTok yaID__LEX ''wire1''"
    "fst (symResolve (tokenPipeline exOptions ?s)) = None"
    "fst (symResolve (tokenPipeline (exOptions\<lparr>bboxUnsup := True\<rparr>) ?s)) = None"
    "fst (symResolve (tokenPipeline exOptions ?t)) = None"
    by code_simp+
  have f: "warned (exState ts) = 0" "warnings (exState ts) = []" "\<not> bboxUnsup exOptions"
    "bboxUnsup (exOptions\<lparr>bboxUnsup := True\<rparr>)" for ts
    by (simp_all add: exState_def exOptions_def)
  from C5_unresolved_identifier[of exOptions ?s "[]"]
       C5_unresolved_identifier[of "exOptions\<lparr>bboxUnsup := True\<rparr>" ?s "[]"]
       C5_unresolved_identifier[of exOptions ?t "[]"]
       C5_unresolved_identifier[of exOptions ?u "[id, id, id, id]"] e f
  show ?thesis by (simp add: mkTok_def)
qed

subsection \<open>C6: entering and leaving included files\<close>

lemma lexPpline_enter:
  assumes "m_lexFileline s < flNext s"
  shows "m_lexFileline (lexPpline ign (f, l, 1) s) = flNext s + 1"
    and "flNext (lexPpline ign (f, l, 1) s) = flNext s + 2"
    and "lexTop (lexPpline ign (f, l, 1) s) =
           applyIgnores ign ((lexTop s)\<lparr>fl_filename := f, fl_lineno := l,
                                         fl_parent := Some (flNext s)\<rparr>)"
    and "flHeap (lexPpline ign (f, l, 1) s) (flNext s) = lexTop s"
    and "\<And>p. p < flNext s \<Longrightarrow> flHeap (lexPpline ign (f, l, 1) s) p = flHeap s p"
    and "m_lexLintState (lexPpline ign (f, l, 1) s) = m_lexLintState s"
  using assms
  by (simp_all add: lexPpline_def lexPplineEnter_def lexPplineLine_def copyOrSameFileLine_def
      newFileLine_def flUpdate_def setParent_def setFilename_def setLineno_def applyIgnores_def
      lexTop_def Let_def)

lemma lexPplineExit_parent:
  assumes "m_lexFileline s < flNext s" and "fl_parent (lexTop s) = Some up"
  shows "m_lexFileline (lexPplineExit s) = flNext s"
    and "flNext (lexPplineExit s) = flNext s + 1"
    and "lexTop (lexPplineExit s)
           = (flHeap s up)\<lparr>fl_contentLineno := fl_contentLineno (lexTop s)\<rparr>"
    and "\<And>p. p < flNext s \<Longrightarrow> flHeap (lexPplineExit s) p = flHeap s p"
  using assms
  by (simp_all add: lexPplineExit_def newFileLine_def flUpdate_def contentLinenoFrom_def
      lexTop_def Let_def)

lemma lexPplineExit_top:
  assumes "fl_parent (lexTop s) = None"
  shows "lexPplineExit s = s"
  using assms by (simp add: lexPplineExit_def lexTop_def)

lemma lexPpline_exit_directive:
  "lexPpline ign (f, l, 2) s = lexPplineLine ign f l (lexPplineExit s)"
  by (simp add: lexPpline_def)

lemma lexPplineLine_top:
  "m_lexFileline (lexPplineLine ign f l s) = m_lexFileline s"
  "flNext (lexPplineLine ign f l s) = flNext s"
  "lexTop (lexPplineLine ign f l s)
     = applyIgnores ign ((lexTop s)\<lparr>fl_filename := f, fl_lineno := l\<rparr>)"
  "p \<noteq> m_lexFileline s \<Longrightarrow> flHeap (lexPplineLine ign f l s) p = flHeap s p"
  by (simp_all add: lexPplineLine_def flUpdate_def setFilename_def setLineno_def
      applyIgnores_def lexTop_def Let_def)

lemma lexPpline_exit:
  assumes "m_lexFileline s < flNext s" and "fl_parent (lexTop s) = Some up"
  shows "m_lexFileline (lexPpline ign (f, l, 2) s) = flNext s"
    and "flNext (lexPpline ign (f, l, 2) s) = flNext s + 1"
    and "lexTop (lexPpline ign (f, l, 2) s) =
           applyIgnores ign ((flHeap s up)\<lparr>fl_filename := f, fl_lineno := l,
                                fl_contentLineno := fl_contentLineno (lexTop s)\<rparr>)"
    and "\<And>p. p < flNext s \<Longrightarrow> flHeap (lexPpline ign (f, l, 2) s) p = flHeap s p"
  using assms
  by (simp_all add: lexPpline_def lexPplineExit_def lexPplineLine_def newFileLine_def
      flUpdate_def contentLinenoFrom_def setFilename_def setLineno_def applyIgnores_def
      lexTop_def Let_def)

lemma lexPpline_exit_top:
  assumes "fl_parent (lexTop s) = None"
  shows "m_lexFileline (lexPpline ign (f, l, 2) s) = m_lexFileline s"
    and "flNext (lexPpline ign (f, l, 2) s) = flNext s"
    and "lexTop (lexPpline ign (f, l, 2) s) =
           applyIgnores ign ((lexTop s)\<lparr>fl_filename := f, fl_lineno := l\<rparr>)"
  using lexPplineExit_top[OF assms]
  by (simp_all add: lexPpline_exit_directive lexPplineLine_top)

lemma lexContentLineno_simps:
  "m_lexFileline (lexContentLineno c s) = m_lexFileline s"
  "flNext (lexContentLineno c s) = flNext s"
  "lexTop (lexContentLineno c s) = (lexTop s)\<lparr>fl_contentLineno := c\<rparr>"
  "p \<noteq> m_lexFileline s \<Longrightarrow> flHeap (lexContentLineno c s) p = flHeap s p"
  by (simp_all add: lexContentLineno_def flUpdate_def lexTop_def)

text \<open>
  C6, as amended.  Between the directives the lexer reads content, so the counter of
  the current location has some value \<open>cA\<close> when B is entered, \<open>cB\<close> at the first exit
  and \<open>cC\<close> at the second.  Each exit carries the counter of the location it leaves:
  the top after the first exit has \<open>cB\<close> (its parent, the snapshot of A, has \<open>cA\<close>), the
  top after the second has \<open>cC\<close> (the original has its own).  The exit branch of the
  second exit directive installs a fresh copy of the original top, with the original's
  filename, line number, warning state and parent; the directive then sets the filename
  and the line number it names and applies the ignores, so the top it leaves has the
  filename and line of the last exit directive, not those of the original.  Each exit
  installs a new location, not the parent itself, and every location that existed
  before is untouched.  An exit directive at a top without parent keeps the top in
  place and only sets its filename and line number.
\<close>

theorem C6_enter_enter_exit_exit:
  assumes wf: "m_lexFileline s < flNext s"
    and sa: "sa = lexContentLineno cA (lexPpline ign (fA, lA, 1) s)"
    and sb: "sb = lexContentLineno cB (lexPpline ign (fB, lB, 1) sa)"
    and sc: "sc = lexContentLineno cC (lexPpline ign (fC, lC, 2) sb)"
    and sd: "sd = lexPpline ign (fD, lD, 2) sc"
  shows "lexTop (lexPplineExit sc) = (lexTop s)\<lparr>fl_contentLineno := cC\<rparr>
       \<and> sd = lexPplineLine ign fD lD (lexPplineExit sc)
       \<and> lexTop sd = applyIgnores ign ((lexTop s)\<lparr>fl_filename := fD, fl_lineno := lD,
                          fl_contentLineno := cC\<rparr>)
       \<and> fl_filename (lexTop sd) = fD \<and> fl_lineno (lexTop sd) = lD
       \<and> fl_msgEn (lexTop sd) = ign fD lD (fl_msgEn (lexTop s))
       \<and> fl_parent (lexTop sd) = fl_parent (lexTop s)
       \<and> fl_contentLineno (lexTop (lexPpline ign (fC, lC, 2) sb)) = cB
       \<and> fl_contentLineno (flHeap sb (flNext s + 2)) = cA
       \<and> fl_contentLineno (lexTop sd) = cC
       \<and> fl_contentLineno (flHeap sc (flNext s)) = fl_contentLineno (lexTop s)
       \<and> fl_parent (lexTop sb) = Some (flNext s + 2) \<and> m_lexFileline sc = flNext s + 4
       \<and> flHeap sc (flNext s + 2) = flHeap sb (flNext s + 2)
       \<and> fl_parent (lexTop sc) = Some (flNext s) \<and> m_lexFileline sd = flNext s + 5
       \<and> flHeap sd (flNext s) = flHeap sc (flNext s)
       \<and> (\<forall>p < flNext s. flHeap sd p = flHeap s p)
       \<and> (fl_parent (lexTop t) = None \<longrightarrow>
            m_lexFileline (lexPpline ign (f, l, 2) t) = m_lexFileline t
            \<and> flNext (lexPpline ign (f, l, 2) t) = flNext t
            \<and> lexTop (lexPpline ign (f, l, 2) t)
                = applyIgnores ign ((lexTop t)\<lparr>fl_filename := f, fl_lineno := l\<rparr>))"
proof -
  define ea where "ea = lexPpline ign (fA, lA, 1) s"
  define eb where "eb = lexPpline ign (fB, lB, 1) sa"
  define xc where "xc = lexPpline ign (fC, lC, 2) sb"
  have sa': "sa = lexContentLineno cA ea" and sb': "sb = lexContentLineno cB eb"
    and sc': "sc = lexContentLineno cC xc"
    using sa sb sc by (simp_all add: ea_def eb_def xc_def)
  note e1 = lexPpline_enter[OF wf, where ign=ign and f=fA and l=lA, folded ea_def]
  have na: "m_lexFileline sa = flNext s + 1" "flNext sa = flNext s + 2"
    using e1(1,2) by (simp_all add: sa' lexContentLineno_simps)
  have wf1: "m_lexFileline sa < flNext sa" using na by simp
  have ta: "lexTop sa = (lexTop ea)\<lparr>fl_contentLineno := cA\<rparr>"
    by (simp add: sa' lexContentLineno_simps)
  have pa: "fl_parent (lexTop sa) = Some (flNext s)" "fl_contentLineno (lexTop sa) = cA"
    using e1(3) by (simp_all add: ta applyIgnores_def)
  have ha: "flHeap sa (flNext s) = lexTop s"
    using e1(1,4) by (simp add: sa' lexContentLineno_simps)
  have oa: "\<And>p. p < flNext s \<Longrightarrow> flHeap sa p = flHeap s p"
    using e1(1,5) by (simp add: sa' lexContentLineno_simps)
  note e2 = lexPpline_enter[OF wf1, where ign=ign and f=fB and l=lB, folded eb_def]
  have nb: "m_lexFileline sb = flNext s + 3" "flNext sb = flNext s + 4"
    using e2(1,2) na by (simp_all add: sb' lexContentLineno_simps)
  have wf2: "m_lexFileline sb < flNext sb" using nb by simp
  have tb: "lexTop sb = (lexTop eb)\<lparr>fl_contentLineno := cB\<rparr>"
    by (simp add: sb' lexContentLineno_simps)
  have pb: "fl_parent (lexTop sb) = Some (flNext sa)" "fl_contentLineno (lexTop sb) = cB"
    using e2(3) by (simp_all add: tb applyIgnores_def)
  have hb: "flHeap sb (flNext sa) = lexTop sa"
    using e2(1,4) by (simp add: sb' lexContentLineno_simps)
  have ob: "\<And>p. p < flNext sa \<Longrightarrow> flHeap sb p = flHeap sa p"
    using e2(1,5) by (simp add: sb' lexContentLineno_simps)
  note x3 = lexPpline_exit[OF wf2 pb(1), where ign=ign and f=fC and l=lC, folded xc_def]
  have nc: "m_lexFileline sc = flNext s + 4" "flNext sc = flNext s + 5"
    using x3(1,2) nb by (simp_all add: sc' lexContentLineno_simps)
  have wf3: "m_lexFileline sc < flNext sc" using nc by simp
  have tx: "fl_contentLineno (lexTop xc) = cB" "fl_parent (lexTop xc) = Some (flNext s)"
    using x3(3) hb pa pb(2) by (simp_all add: applyIgnores_def)
  have tc: "lexTop sc = (lexTop xc)\<lparr>fl_contentLineno := cC\<rparr>"
    by (simp add: sc' lexContentLineno_simps)
  have pc: "fl_parent (lexTop sc) = Some (flNext s)" "fl_contentLineno (lexTop sc) = cC"
    using tx by (simp_all add: tc)
  have oc: "\<And>p. p < flNext sb \<Longrightarrow> flHeap sc p = flHeap sb p"
    using x3(1,4) by (simp add: sc' lexContentLineno_simps)
  have hc: "flHeap sc (flNext s) = lexTop s"
    using oc[of "flNext s"] ob[of "flNext s"] ha na nb by simp
  have blk: "lexTop (lexPplineExit sc) = (lexTop s)\<lparr>fl_contentLineno := cC\<rparr>"
    using lexPplineExit_parent(3)[OF wf3 pc(1)] hc pc(2) by simp
  have cmp: "sd = lexPplineLine ign fD lD (lexPplineExit sc)"
    unfolding sd by (rule lexPpline_exit_directive)
  note x4 = lexPpline_exit[OF wf3 pc(1), where ign=ign and f=fD and l=lD, folded sd]
  have top4: "lexTop sd = applyIgnores ign ((lexTop s)\<lparr>fl_filename := fD, fl_lineno := lD,
                                fl_contentLineno := cC\<rparr>)"
    using x4(3) hc pc(2) by simp
  have a1: "fl_filename (lexTop sd) = fD" and a2: "fl_lineno (lexTop sd) = lD"
    and a3: "fl_msgEn (lexTop sd) = ign fD lD (fl_msgEn (lexTop s))"
    and a4: "fl_parent (lexTop sd) = fl_parent (lexTop s)"
    and a5: "fl_contentLineno (lexTop sd) = cC"
    by (simp_all add: top4 applyIgnores_def)
  have b1: "fl_contentLineno (lexTop (lexPpline ign (fC, lC, 2) sb)) = cB"
    using tx(1) by (simp add: xc_def)
  have b2: "fl_contentLineno (flHeap sb (flNext s + 2)) = cA"
    using hb pa(2) na by simp
  have b3: "fl_contentLineno (flHeap sc (flNext s)) = fl_contentLineno (lexTop s)"
    using hc by simp
  have c1: "fl_parent (lexTop sb) = Some (flNext s + 2)" using pb(1) na by simp
  have c2: "m_lexFileline sc = flNext s + 4" by (rule nc(1))
  have c3: "flHeap sc (flNext s + 2) = flHeap sb (flNext s + 2)"
    using oc[of "flNext s + 2"] nb by simp
  have c4: "m_lexFileline sd = flNext s + 5" using x4(1) nc by simp
  have c5: "flHeap sd (flNext s) = flHeap sc (flNext s)"
    using x4(4)[of "flNext s"] nc by simp
  have old: "\<forall>p < flNext s. flHeap sd p = flHeap s p"
    using x4(4) oc ob oa na nb nc by simp
  have d: "fl_parent (lexTop t) = None \<longrightarrow>
            m_lexFileline (lexPpline ign (f, l, 2) t) = m_lexFileline t
            \<and> flNext (lexPpline ign (f, l, 2) t) = flNext t
            \<and> lexTop (lexPpline ign (f, l, 2) t)
                = applyIgnores ign ((lexTop t)\<lparr>fl_filename := f, fl_lineno := l\<rparr>)"
    using lexPpline_exit_top[where s=t and ign=ign and f=f and l=l] by simp
  show ?thesis
    by (intro conjI blk cmp top4 a1 a2 a3 a4 a5 b1 b2 b3 c1 c2 c3 pc(1) c4 c5 old d)
qed

text \<open>
  C6 as stated fails: the filename and line of the top after the second exit directive
  are not those of the original top but those the exit directive gives.
\<close>

theorem C6_directive_line_counterexample:
  "fl_lineno (lexTop exLex) = 3
   \<and> fl_lineno (lexTop (lexPpline (\<lambda>_ _ w. w) (''top.v'', 4, 2)
        (lexPpline (\<lambda>_ _ w. w) (''a.vh'', 9, 2)
          (lexPpline (\<lambda>_ _ w. w) (''b.vh'', 1, 1)
            (lexPpline (\<lambda>_ _ w. w) (''a.vh'', 1, 1) exLex))))) = 4
   \<and> fl_filename (lexTop exLex) = ''top.v''
   \<and> fl_filename (lexTop (lexPpline (\<lambda>_ _ w. w) (''gen.v'', 1, 2)
        (lexPpline (\<lambda>_ _ w. w) (''a.vh'', 9, 2)
          (lexPpline (\<lambda>_ _ w. w) (''b.vh'', 1, 1)
            (lexPpline (\<lambda>_ _ w. w) (''a.vh'', 1, 1) exLex))))) = ''gen.v''"
  by (simp add: lexPpline_def lexPplineEnter_def lexPplineExit_def lexPplineLine_def
      copyOrSameFileLine_def newFileLine_def flUpdate_def
      setParent_def setFilename_def setLineno_def applyIgnores_def contentLinenoFrom_def
      lexTop_def Let_def exLex_def exFileLine_def)

text \<open>
  The file \<^verbatim>\<open>top.v\<close> at line 3 and content line 3 includes \<^verbatim>\<open>a.vh\<close>, which after 7 content
  lines includes \<^verbatim>\<open>b.vh\<close>; \<^verbatim>\<open>b.vh\<close> ends at content line 20, \<^verbatim>\<open>a.vh\<close> at content line 30.
\<close>

theorem C6_enter_enter_exit_exit_witness:
  "m_lexFileline exLex < flNext exLex
   \<and> fl_contentLineno (lexTop exLex) = 3
   \<and> fl_contentLineno (lexTop (lexPpline (\<lambda>_ _ w. w) (''a.vh'', 9, 2)
        (lexContentLineno 20 (lexPpline (\<lambda>_ _ w. w) (''b.vh'', 1, 1)
          (lexContentLineno 10 (lexPpline (\<lambda>_ _ w. w) (''a.vh'', 1, 1) exLex)))))) = 20
   \<and> fl_lineno (lexTop (lexPplineExit
        (lexContentLineno 30 (lexPpline (\<lambda>_ _ w. w) (''a.vh'', 9, 2)
          (lexContentLineno 20 (lexPpline (\<lambda>_ _ w. w) (''b.vh'', 1, 1)
            (lexContentLineno 10 (lexPpline (\<lambda>_ _ w. w) (''a.vh'', 1, 1) exLex)))))))) = 3
   \<and> fl_lineno (lexTop (lexPpline (\<lambda>_ _ w. w) (''top.v'', 4, 2)
        (lexContentLineno 30 (lexPpline (\<lambda>_ _ w. w) (''a.vh'', 9, 2)
          (lexContentLineno 20 (lexPpline (\<lambda>_ _ w. w) (''b.vh'', 1, 1)
            (lexContentLineno 10 (lexPpline (\<lambda>_ _ w. w) (''a.vh'', 1, 1) exLex)))))))) = 4
   \<and> fl_contentLineno (lexTop (lexPpline (\<lambda>_ _ w. w) (''top.v'', 4, 2)
        (lexContentLineno 30 (lexPpline (\<lambda>_ _ w. w) (''a.vh'', 9, 2)
          (lexContentLineno 20 (lexPpline (\<lambda>_ _ w. w) (''b.vh'', 1, 1)
            (lexContentLineno 10 (lexPpline (\<lambda>_ _ w. w) (''a.vh'', 1, 1) exLex)))))))) = 30
   \<and> fl_msgEn (lexTop (lexPpline (\<lambda>_ _ w. w) (''top.v'', 4, 2)
        (lexContentLineno 30 (lexPpline (\<lambda>_ _ w. w) (''a.vh'', 9, 2)
          (lexContentLineno 20 (lexPpline (\<lambda>_ _ w. w) (''b.vh'', 1, 1)
            (lexContentLineno 10 (lexPpline (\<lambda>_ _ w. w) (''a.vh'', 1, 1) exLex)))))))) = {1, 2}
   \<and> m_lexFileline (lexPpline (\<lambda>_ _ w. w) (''top.v'', 4, 2)
        (lexContentLineno 30 (lexPpline (\<lambda>_ _ w. w) (''a.vh'', 9, 2)
          (lexContentLineno 20 (lexPpline (\<lambda>_ _ w. w) (''b.vh'', 1, 1)
            (lexContentLineno 10 (lexPpline (\<lambda>_ _ w. w) (''a.vh'', 1, 1) exLex))))))) = 6
   \<and> m_lexFileline (lexPpline (\<lambda>_ _ w. w) (''top.v'', 4, 2) exLex) = 0"
proof -
  let ?sb = "lexContentLineno 20 (lexPpline (\<lambda>_ _ w. w) (''b.vh'', 1, 1)
          (lexContentLineno 10 (lexPpline (\<lambda>_ _ w. w) (''a.vh'', 1, 1) exLex)))"
  let ?sc = "lexContentLineno 30 (lexPpline (\<lambda>_ _ w. w) (''a.vh'', 9, 2) ?sb)"
  let ?sd = "lexPpline (\<lambda>_ _ w. w) (''top.v'', 4, 2) ?sc"
  have wf: "m_lexFileline exLex < flNext exLex" by (simp add: exLex_def)
  have top: "fl_parent (lexTop exLex) = None" "fl_msgEn (lexTop exLex) = {1, 2}"
    "flNext exLex = 1" "m_lexFileline exLex = 0" "fl_lineno (lexTop exLex) = 3"
    "fl_contentLineno (lexTop exLex) = 3"
    by (simp_all add: exLex_def exFileLine_def lexTop_def)
  note t = C6_enter_enter_exit_exit[where s=exLex and ign="\<lambda>_ _ w. w"
        and fD="''top.v''" and lD=4 and fC="''a.vh''" and lC=9
        and fB="''b.vh''" and lB=1 and fA="''a.vh''" and lA=1
        and cA=10 and cB=20 and cC=30
        and t=exLex and f="''top.v''" and l=4, OF wf refl refl refl refl]
  from t have k: "fl_contentLineno (lexTop (lexPpline (\<lambda>_ _ w. w) (''a.vh'', 9, 2) ?sb)) = 20"
    by blast
  from t have "lexTop (lexPplineExit ?sc) = (lexTop exLex)\<lparr>fl_contentLineno := 30\<rparr>"
    by blast
  then have a: "fl_lineno (lexTop (lexPplineExit ?sc)) = 3" using top(5) by simp
  from t have b: "fl_lineno (lexTop ?sd) = 4" by blast
  from t have b': "fl_contentLineno (lexTop ?sd) = 30" by blast
  from t have "fl_msgEn (lexTop ?sd) = fl_msgEn (lexTop exLex)" by blast
  then have c: "fl_msgEn (lexTop ?sd) = {1, 2}" using top(2) by simp
  from t have "m_lexFileline ?sd = flNext exLex + 5" by blast
  then have d: "m_lexFileline ?sd = 6" using top(3) by simp
  from t top(1) have
    "m_lexFileline (lexPpline (\<lambda>_ _ w. w) (''top.v'', 4, 2) exLex) = m_lexFileline exLex"
    by blast
  then have e: "m_lexFileline (lexPpline (\<lambda>_ _ w. w) (''top.v'', 4, 2) exLex) = 0"
    using top(4) by simp
  from wf top(6) k a b b' c d e show ?thesis by blast
qed

subsection \<open>C7: the keyword global\<close>

text \<open>
  C7.  A raw \<^verbatim>\<open>global\<close> becomes \<^verbatim>\<open>yGLOBAL__CLOCKING\<close> before \<^verbatim>\<open>clocking\<close>; otherwise
  \<^verbatim>\<open>yGLOBAL__ETC\<close> in pedantic mode; otherwise a plain identifier whose string is
  \<^verbatim>\<open>global\<close>, which the symbol table then classifies like any other identifier.
\<close>

theorem C7_global_reclassified:
  assumes "m_tokensAhead s = front # rest" and "token front = yGLOBAL__LEX"
  shows "yylval (tokenPipeline opt s) =
           (if peekTok (map token rest) 0 = yCLOCKING then front\<lparr>token := yGLOBAL__CLOCKING\<rparr>
            else if pedantic opt then front\<lparr>token := yGLOBAL__ETC\<rparr>
            else front\<lparr>token := yaID__LEX, strp := ''global''\<rparr>)
         \<and> m_tokensAhead (tokenPipeline opt s) = rest
         \<and> (peekTok (map token rest) 0 \<noteq> yCLOCKING \<and> \<not> pedantic opt \<longrightarrow>
              (token (yylval (tokenToBison opt s)) = yaID__aTYPE
               \<or> token (yylval (tokenToBison opt s)) = yaID__ETC)
              \<and> strp (yylval (tokenToBison opt s)) = ''global'')"
proof -
  have a: "yylval (tokenPipeline opt s) =
           (if peekTok (map token rest) 0 = yCLOCKING then front\<lparr>token := yGLOBAL__CLOCKING\<rparr>
            else if pedantic opt then front\<lparr>token := yGLOBAL__ETC\<rparr>
            else front\<lparr>token := yaID__LEX, strp := ''global''\<rparr>)"
    and b: "m_tokensAhead (tokenPipeline opt s) = rest"
    using assms by (simp_all add: tokenPipeline_def lookaheadToken_def Let_def)
  have c: "(token (yylval (tokenToBison opt s)) = yaID__aTYPE
               \<or> token (yylval (tokenToBison opt s)) = yaID__ETC)
              \<and> strp (yylval (tokenToBison opt s)) = ''global''"
    if "peekTok (map token rest) 0 \<noteq> yCLOCKING" "\<not> pedantic opt"
    using that a
    by (simp add: tokenToBison_token tokenPipelineSym_token tokenToBison_strp Let_def
        split: option.splits)
  from a b c show ?thesis by blast
qed

theorem C7_global_reclassified_witness:
  "yylval (tokenPipeline exOptions (exState [mkTok yGLOBAL__LEX ''global'', mkTok yaID__LEX ''x'']))
     = mkTok yaID__LEX ''global''
   \<and> yylval (tokenPipeline (exOptions\<lparr>pedantic := True\<rparr>)
        (exState [mkTok yGLOBAL__LEX ''global'', mkTok yaID__LEX ''x'']))
     = mkTok yGLOBAL__ETC ''global''
   \<and> yylval (tokenPipeline exOptions (exState [mkTok yGLOBAL__LEX ''global'', mkTok yCLOCKING ''clocking'']))
     = mkTok yGLOBAL__CLOCKING ''global''"
  using C7_global_reclassified[of "exState [mkTok yGLOBAL__LEX ''global'', mkTok yaID__LEX ''x'']"
          "mkTok yGLOBAL__LEX ''global''" "[mkTok yaID__LEX ''x'']" exOptions]
        C7_global_reclassified[of "exState [mkTok yGLOBAL__LEX ''global'', mkTok yaID__LEX ''x'']"
          "mkTok yGLOBAL__LEX ''global''" "[mkTok yaID__LEX ''x'']" "exOptions\<lparr>pedantic := True\<rparr>"]
        C7_global_reclassified[of "exState [mkTok yGLOBAL__LEX ''global'', mkTok yCLOCKING ''clocking'']"
          "mkTok yGLOBAL__LEX ''global''" "[mkTok yCLOCKING ''clocking'']" exOptions]
  by (simp add: exState_def mkTok_def exOptions_def)

subsection \<open>C8: the keyword type\<close>

text \<open>
  C8 says that \<^verbatim>\<open>type\<close> becomes type-as-expression only when a balanced parenthesis
  group follows it and an equality operator follows the group, as the comment at the
  test in \<^verbatim>\<open>tokenPipeline\<close> draws it.  The code tests the token at the position the scan
  returns without asking whether the scan found a group: over \<^verbatim>\<open>type ===\<close> the scan
  misses and returns \<open>0\<close>, the token there is the operator, and \<^verbatim>\<open>type\<close> becomes
  \<^verbatim>\<open>yTYPE__EQ\<close>.
\<close>

theorem C8_type_before_equality:
  "tokenPipeScanTypeEq [yP_EQUAL] 0 = 0
   \<and> token (yylval (tokenPipeline opt
        (s\<lparr>m_tokensAhead := [mkTok yTYPE__LEX ''type'', mkTok yP_EQUAL ''==='']\<rparr>))) = yTYPE__EQ"
  by (simp add: tokenPipeline_def lookaheadToken_def Let_def mkTok_def tokenPipeScanTypeEq_def)

text \<open>
  What the code does with a raw \<^verbatim>\<open>type\<close> in full: it becomes \<^verbatim>\<open>yTYPE__EQ\<close> when a
  balanced parenthesis group and then an equality operator follow, and also when an
  equality operator follows at once; \<^verbatim>\<open>yTYPE__ETC\<close> otherwise.  The second case is the
  one in which the code and C8 part.
\<close>

lemma type_reclassified:
  assumes "m_tokensAhead s = front # rest" and "token front = yTYPE__LEX"
  shows "token (yylval (tokenPipeline opt s)) =
           (if (\<exists>g e more. parenGroup g \<and> map token rest = g @ e # more \<and> isEqualityOp e)
               \<or> isEqualityOp (peekTok (map token rest) 0)
            then yTYPE__EQ else yTYPE__ETC)"
proof -
  let ?ahead = "map token rest"
  let ?r = "tokenPipeScanTypeEq ?ahead 0"
  have tp: "token (yylval (tokenPipeline opt s)) =
      (if isEqualityOp (peekTok ?ahead ?r) then yTYPE__EQ else yTYPE__ETC)"
    using assms by (simp add: tokenPipeline_def lookaheadToken_def Let_def isEqualityOp_def)
  have "isEqualityOp (peekTok ?ahead ?r) \<longleftrightarrow>
      (\<exists>g e more. parenGroup g \<and> ?ahead = g @ e # more \<and> isEqualityOp e)
      \<or> isEqualityOp (peekTok ?ahead 0)"
  proof -
    from tokenPipeScanTypeEq_result[of ?ahead 0]
    consider (none) "peekTok ?ahead 0 \<noteq> LPAREN" "?r = 0"
      | (eof) "peekTok ?ahead 0 = LPAREN" "\<not> (\<exists>g rest. parenGroup g \<and> ?ahead = g @ rest)"
          "peekTok ?ahead ?r = TEOF"
      | (grp) g tl where "parenGroup g" "?ahead = g @ tl" "?r = length g"
      by auto
    then show ?thesis
    proof cases
      case none
      have "\<not> (\<exists>g e more. parenGroup g \<and> ?ahead = g @ e # more \<and> isEqualityOp e)"
        using none(1) by (auto simp: parenGroup_def)
      with none(2) show ?thesis by auto
    next
      case eof
      then show ?thesis by (auto simp: isEqualityOp_def)
    next
      case grp
      have pk: "peekTok ?ahead ?r = peekTok tl 0"
        using grp(2,3) peekTok_drop[of ?ahead "length g"] by simp
      have first: "peekTok ?ahead 0 = LPAREN" using grp(1,2) by (auto simp: parenGroup_def)
      have uniq: "g' = g \<and> tl' = tl" if "parenGroup g'" "?ahead = g' @ tl'" for g' tl'
      proof -
        from parenGroup_scanParamLoop[OF that(1), of 0 ?ahead tl' 0] that(2)
             parenGroup_scanParamLoop[OF grp(1), of 0 ?ahead tl 0] grp(2)
        have "length g' = length g" by simp
        with that(2) grp(2) show ?thesis by (metis append_eq_append_conv)
      qed
      show ?thesis
      proof
        assume "isEqualityOp (peekTok ?ahead ?r)"
        then have e: "isEqualityOp (peekTok tl 0)" by (simp add: pk)
        then obtain e more where "tl = e # more" by (cases tl) (auto simp: isEqualityOp_def)
        with e grp show "(\<exists>g e more. parenGroup g \<and> ?ahead = g @ e # more \<and> isEqualityOp e)
            \<or> isEqualityOp (peekTok ?ahead 0)" by auto
      next
        assume "(\<exists>g e more. parenGroup g \<and> ?ahead = g @ e # more \<and> isEqualityOp e)
            \<or> isEqualityOp (peekTok ?ahead 0)"
        then obtain g' e more where "parenGroup g'" "?ahead = g' @ e # more" "isEqualityOp e"
          using first by (auto simp: isEqualityOp_def)
        note g' = this
        from uniq[OF g'(1,2)] have "tl = e # more" by simp
        then have "peekTok tl 0 = e" by simp
        with g'(3) pk show "isEqualityOp (peekTok ?ahead ?r)" by (simp only:)
      qed
    qed
  qed
  with tp show ?thesis by simp
qed

subsection \<open>C9: saving and restoring the lint state\<close>

text \<open>
  C9.  After a save, and whatever has happened to the locations since as long as the
  stack is as the save left it, a restore gives the location the warning state that
  was saved, pops the stack and reports no error.  A restore at an empty stack reports
  the error and changes nothing else.
\<close>

theorem C9_lint_save_restore:
  "(m_lexLintState s' = m_lexLintState (lexVerilatorCmtLintSave flp s) \<longrightarrow>
      fl_msgEn (flHeap (lexVerilatorCmtLintRestore flq s') flq) = fl_msgEn (flHeap s flp)
      \<and> m_lexLintState (lexVerilatorCmtLintRestore flq s') = m_lexLintState s
      \<and> v3errors (lexVerilatorCmtLintRestore flq s') = v3errors s')
   \<and> (m_lexLintState s = [] \<longrightarrow>
      lexVerilatorCmtLintRestore flq s
        = s\<lparr>v3errors := v3errors s @ [(flq, ''/*verilator lint_restore*/ without matching save'')]\<rparr>
      \<and> flHeap (lexVerilatorCmtLintRestore flq s) = flHeap s
      \<and> m_lexLintState (lexVerilatorCmtLintRestore flq s) = [])"
  by (simp add: lexVerilatorCmtLintSave_def lexVerilatorCmtLintRestore_def flUpdate_def
      warnStateFrom_def Let_def)

theorem C9_lint_save_restore_witness:
  "fl_msgEn (flHeap (lexVerilatorCmtLintRestore 0
      (flUpdate 0 (\<lambda>f. f\<lparr>fl_msgEn := {}\<rparr>) (lexVerilatorCmtLintSave 0 exLex))) 0) = {1, 2}
   \<and> m_lexLintState (lexVerilatorCmtLintRestore 0
      (flUpdate 0 (\<lambda>f. f\<lparr>fl_msgEn := {}\<rparr>) (lexVerilatorCmtLintSave 0 exLex))) = []
   \<and> v3errors (lexVerilatorCmtLintRestore 0
      (flUpdate 0 (\<lambda>f. f\<lparr>fl_msgEn := {}\<rparr>) (lexVerilatorCmtLintSave 0 exLex))) = []
   \<and> lexVerilatorCmtLintRestore 0 exLex
      = exLex\<lparr>v3errors := [(0, ''/*verilator lint_restore*/ without matching save'')]\<rparr>"
  using C9_lint_save_restore[of
      "flUpdate 0 (\<lambda>f. f\<lparr>fl_msgEn := {}\<rparr>) (lexVerilatorCmtLintSave 0 exLex)" 0 exLex 0]
  by (simp add: exLex_def exFileLine_def flUpdate_def lexVerilatorCmtLintSave_def)

subsection \<open>C10: the bytes handed to the lexer\<close>

lemma ppInputLoop_result:
  "got \<le> max_size \<Longrightarrow> ppInputLoop max_size buf got bufs = (buf', got', rest)
   \<Longrightarrow> buf' = buf @ take (max_size - got) (concat bufs)
       \<and> got' = got + length (take (max_size - got) (concat bufs))
       \<and> concat rest = drop (max_size - got) (concat bufs)
       \<and> ((\<forall>b \<in> set bufs. b \<noteq> []) \<longrightarrow> (\<forall>b \<in> set rest. b \<noteq> []))"
proof (induction max_size buf got bufs rule: ppInputLoop.induct)
  case (1 max_size buf got ppBuffers)
  show ?case
  proof (cases "got < max_size \<and> ppBuffers \<noteq> []")
    case False
    with "1.prems" show ?thesis
      by (subst (asm) ppInputLoop.simps) auto
  next
    case True
    then obtain front tl where pb: "ppBuffers = front # tl" by (cases ppBuffers) auto
    show ?thesis
    proof (cases "length front > max_size - got")
      case big: True
      have eq: "ppInputLoop max_size buf got ppBuffers
          = ppInputLoop max_size (buf @ take (max_size - got) front) max_size
              (drop (max_size - got) front # tl)"
        using True big pb by (subst ppInputLoop.simps) (simp add: Let_def)
      also have "\<dots> = (buf @ take (max_size - got) front, max_size, drop (max_size - got) front # tl)"
        by (subst ppInputLoop.simps) simp
      finally show ?thesis using "1.prems" big pb True by (auto simp: min_def)
    next
      case small: False
      have eq: "ppInputLoop max_size buf got ppBuffers
          = ppInputLoop max_size (buf @ front) (got + length front) tl"
        using True small pb by (subst ppInputLoop.simps) (simp add: Let_def)
      from small "1.prems"(1) have le: "got + length front \<le> max_size" by simp
      have ih: "buf' = (buf @ front) @ take (max_size - (got + length front)) (concat tl)
       \<and> got' = (got + length front) + length (take (max_size - (got + length front)) (concat tl))
       \<and> concat rest = drop (max_size - (got + length front)) (concat tl)
       \<and> ((\<forall>b \<in> set tl. b \<noteq> []) \<longrightarrow> (\<forall>b \<in> set rest. b \<noteq> []))"
        using "1.IH"(2)[OF True refl refl refl] small pb eq "1.prems"(2) le by simp
      then show ?thesis using pb small by (auto simp: min_def)
    qed
  qed
qed

lemma ppInputToLex_split:
  assumes "ppBuffers = front # rest" and "length front > max_size"
  shows "ppInputToLex max_size ppBuffers = (take max_size front, max_size, drop max_size front # rest)"
proof (cases "max_size = 0")
  case True
  then show ?thesis using assms unfolding ppInputToLex_def by (subst ppInputLoop.simps) simp
next
  case False
  have "ppInputLoop max_size [] 0 ppBuffers
      = ppInputLoop max_size (take max_size front) max_size (drop max_size front # rest)"
    using assms False by (subst ppInputLoop.simps) (simp add: Let_def)
  also have "\<dots> = (take max_size front, max_size, drop max_size front # rest)"
    by (subst ppInputLoop.simps) simp
  finally show ?thesis by (simp add: ppInputToLex_def)
qed

lemma ppInputCalls_concat:
  "ppInputCalls sizes bufs = (chunks, rest) \<Longrightarrow> concat chunks @ concat rest = concat bufs"
proof (induction sizes arbitrary: bufs chunks rest)
  case Nil
  then show ?case by simp
next
  case (Cons m sizes)
  obtain buf got r1 where a: "ppInputToLex m bufs = (buf, got, r1)" by (cases "ppInputToLex m bufs")
  obtain cs r2 where b: "ppInputCalls sizes r1 = (cs, r2)" by (cases "ppInputCalls sizes r1")
  from a have r: "buf = take m (concat bufs)" "got = length buf" "concat r1 = drop m (concat bufs)"
    using ppInputLoop_result[of 0 m "[]" bufs buf got r1] by (simp_all add: ppInputToLex_def)
  from Cons.prems a b have c: "chunks = take got buf # cs" "rest = r2" by simp_all
  from r(2) have tk: "take got buf = buf" by simp
  from Cons.IH[OF b] have "concat cs @ concat r2 = concat r1" .
  then have "concat chunks @ concat rest = take m (concat bufs) @ drop m (concat bufs)"
    using r(1,3) c tk by simp
  then show ?case by simp
qed

text \<open>
  C10, as amended.  A call returns at most \<open>max_size\<close> bytes: the first \<open>max_size\<close>
  bytes of the concatenation of the buffered strings, and it leaves the rest of that
  concatenation buffered; a front string longer than the capacity is split and its
  remainder put back at the front; the chunks of any sequence of calls followed by what
  is left are the original concatenation.  The count is zero exactly when the list is
  empty provided that the capacity is positive and no buffered string is empty, which
  a call preserves.
\<close>

theorem C10_ppInputToLex_delivery:
  "(ppInputToLex max_size bufs = (buf, got, rest) \<longrightarrow>
      got \<le> max_size \<and> got = length buf
      \<and> buf = take max_size (concat bufs) \<and> concat rest = drop max_size (concat bufs)
      \<and> ((\<forall>b \<in> set bufs. b \<noteq> []) \<longrightarrow> (\<forall>b \<in> set rest. b \<noteq> []))
      \<and> (0 < max_size \<and> (\<forall>b \<in> set bufs. b \<noteq> []) \<longrightarrow> (got = 0 \<longleftrightarrow> bufs = [])))
   \<and> (max_size < length front \<longrightarrow>
      ppInputToLex max_size (front # others)
        = (take max_size front, max_size, drop max_size front # others))
   \<and> (ppInputCalls sizes bufs = (chunks, rest') \<longrightarrow> concat chunks @ concat rest' = concat bufs)"
proof -
  have one: "got \<le> max_size \<and> got = length buf
      \<and> buf = take max_size (concat bufs) \<and> concat rest = drop max_size (concat bufs)
      \<and> ((\<forall>b \<in> set bufs. b \<noteq> []) \<longrightarrow> (\<forall>b \<in> set rest. b \<noteq> []))
      \<and> (0 < max_size \<and> (\<forall>b \<in> set bufs. b \<noteq> []) \<longrightarrow> (got = 0 \<longleftrightarrow> bufs = []))"
    if a: "ppInputToLex max_size bufs = (buf, got, rest)"
  proof -
    from a have r: "buf = take max_size (concat bufs)" "got = length buf"
      "concat rest = drop max_size (concat bufs)"
      "(\<forall>b \<in> set bufs. b \<noteq> []) \<longrightarrow> (\<forall>b \<in> set rest. b \<noteq> [])"
      using ppInputLoop_result[of 0 max_size "[]" bufs buf got rest]
      by (simp_all add: ppInputToLex_def)
    have le: "got \<le> max_size" using r(1,2) by simp
    have z: "got = 0 \<longleftrightarrow> bufs = []" if h: "0 < max_size" "\<forall>b \<in> set bufs. b \<noteq> []"
    proof -
      from h(2) have c: "concat bufs = [] \<longleftrightarrow> bufs = []" by (cases bufs) auto
      have "got = min max_size (length (concat bufs))" using r(1,2) by (simp add: min.commute)
      then have "got = 0 \<longleftrightarrow> length (concat bufs) = 0" using h(1) by arith
      then have "got = 0 \<longleftrightarrow> concat bufs = []" by (simp only: length_0_conv)
      with c show ?thesis by simp
    qed
    from le r z show ?thesis by blast
  qed
  have two: "ppInputToLex max_size (front # others)
        = (take max_size front, max_size, drop max_size front # others)"
    if "max_size < length front"
    using that ppInputToLex_split[of "front # others" front others max_size] by simp
  have three: "concat chunks @ concat rest' = concat bufs"
    if "ppInputCalls sizes bufs = (chunks, rest')"
    using that by (rule ppInputCalls_concat)
  from one two three show ?thesis by blast
qed

text \<open>
  C10 as stated fails: with capacity \<open>0\<close> the loop is not entered and the count is
  \<open>0\<close> although a string is buffered.
\<close>

theorem C10_zero_capacity_counterexample:
  "fst (snd (ppInputToLex 0 [''module''])) = 0 \<and> [''module''] \<noteq> ([] :: string list)"
  by code_simp

theorem C10_ppInputToLex_delivery_witness:
  "ppInputToLex 4 [''ab'', ''cde'', ''f''] = (''abcd'', 4, [''e'', ''f''])
   \<and> (4::nat) \<le> 4 \<and> ''abcd'' = take 4 (concat [''ab'', ''cde'', ''f''])
   \<and> concat [''e'', ''f''] = drop 4 (concat [''ab'', ''cde'', ''f''])
   \<and> ppInputToLex 4 [''module'', ''f''] = (''modu'', 4, [''le'', ''f''])
   \<and> ppInputCalls [4, 4] [''ab'', ''cde'', ''f''] = ([''abcd'', ''ef''], [])
   \<and> concat [''abcd'', ''ef''] @ concat [] = concat [''ab'', ''cde'', ''f'']"
proof -
  have a: "ppInputToLex 4 [''ab'', ''cde'', ''f''] = (''abcd'', 4, [''e'', ''f''])"
    by code_simp
  have b: "ppInputCalls [4, 4] [''ab'', ''cde'', ''f''] = ([''abcd'', ''ef''], [])"
    by code_simp
  have c: "(4::nat) < length ''module''" by simp
  from C10_ppInputToLex_delivery[of 4 "[''ab'', ''cde'', ''f'']" "''abcd''" 4 "[''e'', ''f'']"
          "''module''" "[''f'']" "[4, 4]" "[''abcd'', ''ef'']" "[]"] a b c
  show ?thesis by simp
qed

end
